theory Spec2Isabelle
  imports Complex_Main
begin

section \<open>Strings\<close>

text \<open>
  JavaScript strings are modelled as \<^typ>\<open>string\<close>: an ASCII character is one \<^typ>\<open>char\<close>,
  and a character outside ASCII is carried as the bytes of its UTF-8 encoding. Every such
  byte is a non-word character for the regular expression class \<^verbatim>\<open>\W\<close> (no \<^verbatim>\<open>u\<close> flag),
  as every UTF-16 code unit of the character it stands for is.
\<close>

definition upper_chars :: string where
  "upper_chars = ''ABCDEFGHIJKLMNOPQRSTUVWXYZ''"

definition lower_chars :: string where
  "lower_chars = ''abcdefghijklmnopqrstuvwxyz''"

definition digit_chars :: string where
  "digit_chars = ''0123456789''"

definition is_word_char :: "char \<Rightarrow> bool" where
  \<comment> \<open>the class \<^verbatim>\<open>\w\<close>, i.e. \<^verbatim>\<open>[A-Za-z0-9_]\<close>; \<^verbatim>\<open>[\s\W]\<close> is its complement\<close>
  "is_word_char c = (c \<in> set (upper_chars @ lower_chars @ digit_chars @ ''_''))"

definition lower_char :: "char \<Rightarrow> char" where
  "lower_char c = (case map_of (zip upper_chars lower_chars) c of Some l \<Rightarrow> l | None \<Rightarrow> c)"

definition starts_with :: "string \<Rightarrow> string \<Rightarrow> bool" where
  "starts_with sub s = (take (length sub) s = sub)"

text \<open>
  The two characters outside ASCII whose lower case has an ASCII letter in it: the Kelvin
  sign U+212A, which \<^verbatim>\<open>toLowerCase\<close> maps to \<^verbatim>\<open>k\<close>, and the capital I with dot above
  U+0130, which it maps to \<^verbatim>\<open>i\<close> followed by the combining dot above U+0307.
\<close>

definition kelvin_sign :: string where
  "kelvin_sign = [CHR 0xE2, CHR 0x84, CHR 0xAA]"

definition capital_i_dot :: string where
  "capital_i_dot = [CHR 0xC4, CHR 0xB0]"

definition combining_dot :: string where
  "combining_dot = [CHR 0xCC, CHR 0x87]"

text \<open>
  \<^verbatim>\<open>String.prototype.toLowerCase\<close>: the ASCII capitals become small letters, and the two
  characters above become what the platform makes of them. The bytes of any other
  character outside ASCII are left as they are; the platform may replace such a character
  by its lower case, which again has no ASCII character in it, so the ASCII characters of
  the result, and their places between the others, are those the platform produces.
\<close>

fun toLowerCase :: "string \<Rightarrow> string" where
  "toLowerCase [] = []"
| "toLowerCase (c # cs) =
     (if starts_with kelvin_sign (c # cs) then CHR ''k'' # toLowerCase (drop 2 cs)
      else if starts_with capital_i_dot (c # cs)
      then CHR ''i'' # combining_dot @ toLowerCase (drop 1 cs)
      else lower_char c # toLowerCase cs)"

text \<open>\<^verbatim>\<open>Array.prototype.join\<close>.\<close>

fun join :: "string \<Rightarrow> string list \<Rightarrow> string" where
  "join sep [] = []"
| "join sep [x] = x"
| "join sep (x # y # ys) = x @ sep @ join sep (y # ys)"

text \<open>\<^verbatim>\<open>xs.slice(-n)\<close>: the last \<open>n\<close> elements, in their order.\<close>

definition slice_last :: "nat \<Rightarrow> 'a list \<Rightarrow> 'a list" where
  "slice_last n xs = drop (length xs - n) xs"

text \<open>
  \<^verbatim>\<open>s.split(/[\s\W]+/)\<close>: the pieces between maximal runs of non-word characters. As in
  JavaScript, a separator at the very start or end yields an empty first or last piece,
  and the empty string splits into one empty piece. The first argument is the piece read
  so far, reversed.
\<close>

function split_nonword :: "string \<Rightarrow> string \<Rightarrow> string list" where
  "split_nonword cur [] = [rev cur]"
| "split_nonword cur (c # cs) =
     (if is_word_char c then split_nonword (c # cur) cs
      else rev cur # split_nonword [] (dropWhile (\<lambda>d. \<not> is_word_char d) cs))"
  by pat_completeness auto
termination
  by (relation "measure (\<lambda>(cur, s). length s)")
     (auto simp: le_imp_less_Suc length_dropWhile_le)

text \<open>\<^verbatim>\<open>[...new Set(xs)]\<close>: a set iterates in insertion order, so the first occurrence stays.\<close>

fun set_insert_order :: "'a list \<Rightarrow> 'a list \<Rightarrow> 'a list" where
  "set_insert_order seen [] = seen"
| "set_insert_order seen (x # xs) =
     (if x \<in> set seen then set_insert_order seen xs else set_insert_order (seen @ [x]) xs)"

definition spread_Set :: "'a list \<Rightarrow> 'a list" where
  "spread_Set xs = set_insert_order [] xs"

section \<open>Keyword extractor\<close>

definition stopWords :: "string list" where
  "stopWords = [''the'', ''a'', ''an'', ''of'', ''for'', ''in'', ''on'', ''with'', ''to'', ''at'',
                ''by'', ''is'', ''are'', ''and'', ''or'']"

definition uniqueKeywords :: "string list \<Rightarrow> string list" where
  \<comment> \<open>the local \<^verbatim>\<open>uniqueKeywords\<close> of \<^verbatim>\<open>extractKeywords\<close>\<close>
  "uniqueKeywords titles =
     (let recentTitles = join '' '' (slice_last 3 titles);
          words = split_nonword [] (toLowerCase recentTitles);
          keywords = filter (\<lambda>w. length w > 4 \<and> w \<notin> set stopWords) words
      in take 3 (spread_Set keywords))"

definition extractKeywords :: "string list \<Rightarrow> string" where
  "extractKeywords titles =
     (if length titles = 0 then ''''
      else if length (uniqueKeywords titles) = 0 then ''''
      else join '' OR '' (map (\<lambda>k. ''all:'' @ k) (uniqueKeywords titles)))"

section \<open>More string operations\<close>

text \<open>\<^verbatim>\<open>str.includes(sub)\<close>.\<close>

fun includes_str :: "string \<Rightarrow> string \<Rightarrow> bool" where
  "includes_str [] sub = (sub = [])"
| "includes_str (c # cs) sub = (starts_with sub (c # cs) \<or> includes_str cs sub)"

text \<open>
  \<^verbatim>\<open>s.split(sep)\<close> for a string separator: the pieces between the occurrences of \<open>sep\<close>,
  found from the left. With the empty separator JavaScript splits into single characters.
\<close>

function split_at :: "string \<Rightarrow> string \<Rightarrow> string \<Rightarrow> string list" where
  "split_at sep cur [] = [rev cur]"
| "split_at sep cur (c # cs) =
     (if sep \<noteq> [] \<and> starts_with sep (c # cs)
      then rev cur # split_at sep [] (drop (length sep) (c # cs))
      else split_at sep (c # cur) cs)"
  by pat_completeness auto
termination
  by (relation "measure (\<lambda>(sep, cur, s). length s)") auto

definition split_str :: "string \<Rightarrow> string \<Rightarrow> string list" where
  "split_str sep s = (if sep = [] then map (\<lambda>c. [c]) s else split_at sep [] s)"

definition newline :: char where
  "newline = CHR 0x0A"

definition replace_newlines :: "string \<Rightarrow> string" where
  \<comment> \<open>\<^verbatim>\<open>s.replace(/\n/g, " ")\<close>\<close>
  "replace_newlines s = map (\<lambda>c. if c = newline then CHR '' '' else c) s"

text \<open>
  The white space and line terminators that \<^verbatim>\<open>trim\<close> strips, each as its UTF-8 bytes:
  tab, LF, VT, FF, CR, space, U+00A0, U+1680, U+2000 to U+200A, U+2028, U+2029, U+202F,
  U+205F, U+3000 and U+FEFF.
\<close>

definition white_space :: "string list" where
  "white_space =
     [[CHR 0x09], [CHR 0x0A], [CHR 0x0B], [CHR 0x0C], [CHR 0x0D], [CHR 0x20],
      [CHR 0xC2, CHR 0xA0], [CHR 0xE1, CHR 0x9A, CHR 0x80],
      [CHR 0xE2, CHR 0x80, CHR 0x80], [CHR 0xE2, CHR 0x80, CHR 0x81],
      [CHR 0xE2, CHR 0x80, CHR 0x82], [CHR 0xE2, CHR 0x80, CHR 0x83],
      [CHR 0xE2, CHR 0x80, CHR 0x84], [CHR 0xE2, CHR 0x80, CHR 0x85],
      [CHR 0xE2, CHR 0x80, CHR 0x86], [CHR 0xE2, CHR 0x80, CHR 0x87],
      [CHR 0xE2, CHR 0x80, CHR 0x88], [CHR 0xE2, CHR 0x80, CHR 0x89],
      [CHR 0xE2, CHR 0x80, CHR 0x8A], [CHR 0xE2, CHR 0x80, CHR 0xA8],
      [CHR 0xE2, CHR 0x80, CHR 0xA9], [CHR 0xE2, CHR 0x80, CHR 0xAF],
      [CHR 0xE2, CHR 0x81, CHR 0x9F], [CHR 0xE3, CHR 0x80, CHR 0x80],
      [CHR 0xEF, CHR 0xBB, CHR 0xBF]]"

text \<open>Dropping, from the front, every leading occurrence of one of the given sequences.\<close>

function strip_leading :: "string list \<Rightarrow> string \<Rightarrow> string" where
  "strip_leading seqs s =
     (case find (\<lambda>w. w \<noteq> [] \<and> starts_with w s) seqs of
        None \<Rightarrow> s
      | Some w \<Rightarrow> strip_leading seqs (drop (length w) s))"
  by pat_completeness auto
termination
proof (relation "measure (\<lambda>(seqs, s). length s)")
  show "wf (measure (\<lambda>(seqs, s). length s))" by simp
next
  fix seqs :: "string list" and s w :: string
  assume "find (\<lambda>w. w \<noteq> [] \<and> starts_with w s) seqs = Some w"
  then have "w \<noteq> []" and "take (length w) s = w"
    by (auto simp: find_Some_iff starts_with_def)
  then have "s \<noteq> []" and "0 < length w" by auto
  then show "((seqs, drop (length w) s), (seqs, s)) \<in> measure (\<lambda>(seqs, s). length s)"
    by simp
qed

declare strip_leading.simps [simp del]

definition trim :: "string \<Rightarrow> string" where
  "trim s = rev (strip_leading (map rev white_space) (rev (strip_leading white_space s)))"

text \<open>
  Decimal digits of a number, as a template literal prints it. JavaScript prints a whole
  number this way as long as it is below ten to the 21st.
\<close>

fun show_nat :: "nat \<Rightarrow> string" where
  "show_nat n =
     (if n < 10 then [digit_chars ! n] else show_nat (n div 10) @ [digit_chars ! (n mod 10)])"

declare show_nat.simps [simp del]

definition hex_chars :: string where
  "hex_chars = ''0123456789ABCDEF''"

definition uri_unreserved :: "char \<Rightarrow> bool" where
  "uri_unreserved c = (c \<in> set (upper_chars @ lower_chars @ digit_chars @ ''-_.!~*()'' @ [CHR 0x27]))"

definition encodeURIComponent :: "string \<Rightarrow> string" where
  "encodeURIComponent s =
     concat (map (\<lambda>c. if uri_unreserved c then [c]
                      else [CHR ''%'', hex_chars ! (of_char c div 16), hex_chars ! (of_char c mod 16)]) s)"

section \<open>Data model\<close>

text \<open>Values thrown or rejected with.\<close>

datatype exn = Error string | TypeError | SyntaxError

text \<open>What \<^verbatim>\<open>JSON.parse\<close> returns; an object lists each member name once.\<close>

datatype json =
    JNull
  | JBool bool
  | JNumber real
  | JString string
  | JArray "json list"
  | JObject "(string \<times> json) list"

text \<open>The raw record parsed from the search feed (\<^verbatim>\<open>RawArxivPaper\<close>).\<close>

record RawArxivPaper =
  raw_id :: string
  raw_title :: string
  raw_authors :: "string list"
  published :: string
  summary :: string

text \<open>
  \<^verbatim>\<open>Paper\<close>. The three enriched fields are assigned from the untyped enrichment entry
  (\<^verbatim>\<open>enriched.abstract_zh || ...\<close>), so at run time they hold whatever JSON value the
  service sent; they are \<^typ>\<open>json\<close> here. The optional \<^verbatim>\<open>image_prompt\<close> is never set.
\<close>

record Paper =
  paper_id :: string
  title :: string
  authors :: "string list"
  year :: string
  abstract_en :: string
  abstract_zh :: json
  tldr :: json
  tags :: json

record RecommendationContext =
  ctx_likedPapers :: "string list"
  ctx_dislikedPapers :: "string list"
  ctx_currentFocus :: string

datatype SwipeDirection = LEFT | RIGHT

section \<open>Source fetcher\<close>

text \<open>
  The outside world of \<^verbatim>\<open>fetchFromArxiv\<close>: the value drawn by \<^verbatim>\<open>Math.random()\<close>, the
  behaviour of \<^verbatim>\<open>fetch\<close> on each URL (a rejection, or a response with its \<^verbatim>\<open>ok\<close> flag,
  status and the outcome of \<^verbatim>\<open>response.text()\<close>), and the \<^verbatim>\<open>entry\<close> elements that
  \<^verbatim>\<open>DOMParser\<close> finds in a text.
\<close>

record http_response =
  ok :: bool
  status :: nat
  text_of :: "exn + string"

text \<open>
  One \<^verbatim>\<open>entry\<close> element as the parsing loop reads it: the \<^verbatim>\<open>textContent\<close> of the first
  \<^verbatim>\<open>id\<close>, \<^verbatim>\<open>title\<close>, \<^verbatim>\<open>summary\<close> and \<^verbatim>\<open>published\<close> descendant (\<open>None\<close> when there is
  none), and for every \<^verbatim>\<open>author\<close> descendant the text of its first \<^verbatim>\<open>name\<close>.
\<close>

record xml_entry =
  entry_id :: "string option"
  entry_title :: "string option"
  entry_summary :: "string option"
  entry_published :: "string option"
  entry_authors :: "string option list"

record arxiv_env =
  random :: real
  fetch :: "string \<Rightarrow> exn + http_response"
  DOMParser_entries :: "string \<Rightarrow> xml_entry list"

definition or_empty :: "string option \<Rightarrow> string" where
  \<comment> \<open>\<^verbatim>\<open>x?.textContent || ""\<close>\<close>
  "or_empty x = (case x of None \<Rightarrow> [] | Some t \<Rightarrow> t)"

definition first_piece :: "string list \<Rightarrow> string" where
  \<comment> \<open>\<^verbatim>\<open>pieces[0]\<close> of a split, which always has a first piece\<close>
  "first_piece pieces = (case pieces of [] \<Rightarrow> [] | x # _ \<Rightarrow> x)"

definition parse_entry :: "xml_entry \<Rightarrow> RawArxivPaper" where
  "parse_entry entry =
     (let idUrl = or_empty (entry_id entry);
          idParts = split_str ''/abs/'' idUrl;
          rawId = (if length idParts > 1 then idParts ! 1 else idUrl);
          ident = first_piece (split_str ''v'' rawId);
          title' = or_empty (map_option (\<lambda>t. trim (replace_newlines t)) (entry_title entry));
          summary' = or_empty (map_option (\<lambda>t. trim (replace_newlines t)) (entry_summary entry));
          published' = or_empty (map_option (\<lambda>t. first_piece (split_str ''T'' t))
                                   (entry_published entry));
          authors' = map or_empty (entry_authors entry)
      in \<lparr>raw_id = ident, raw_title = title', raw_authors = authors',
          published = published', summary = summary'\<rparr>)"

text \<open>The body of the \<^verbatim>\<open>try\<close> block for one proxy URL; \<open>Inl\<close> is a throw.\<close>

definition proxy_attempt :: "arxiv_env \<Rightarrow> string \<Rightarrow> exn + RawArxivPaper list" where
  "proxy_attempt env url =
     (case fetch env url of
        Inl e \<Rightarrow> Inl e
      | Inr response \<Rightarrow>
          if \<not> ok response then Inl (Error (''HTTP error '' @ show_nat (status response)))
          else (case text_of response of
                  Inl e \<Rightarrow> Inl e
                | Inr str \<Rightarrow>
                    if \<not> includes_str str ''<feed'' \<and> \<not> includes_str str ''<entry''
                    then Inl (Error ''Response is not valid ArXiv XML'')
                    else Inr (map parse_entry (DOMParser_entries env str))))"

definition proxies :: "(string \<Rightarrow> string) list" where
  "proxies =
     [\<lambda>url. ''https://api.allorigins.win/raw?url='' @ encodeURIComponent url,
      \<lambda>url. ''https://corsproxy.io/?'' @ encodeURIComponent url]"

text \<open>
  The \<^verbatim>\<open>for\<close> loop over the proxies: the first attempt that does not throw returns its
  records; a throw is caught (and only logged) and the loop goes on; after the last proxy
  the function returns the empty array.
\<close>

fun try_proxies :: "arxiv_env \<Rightarrow> string \<Rightarrow> (string \<Rightarrow> string) list \<Rightarrow> RawArxivPaper list" where
  "try_proxies env targetUrl [] = []"
| "try_proxies env targetUrl (createProxyUrl # rest) =
     (case proxy_attempt env (createProxyUrl targetUrl) of
        Inr papers \<Rightarrow> papers
      | Inl e \<Rightarrow> try_proxies env targetUrl rest)"

definition baseUrl :: string where
  "baseUrl = ''https://export.arxiv.org/api/query''"

definition relevance_query :: "string \<Rightarrow> string" where
  \<open>relevance_query keywords =
     ''(all:"autonomous agent" OR all:"large language model") AND ('' @ keywords @ '')''\<close>

definition recency_query :: string where
  \<open>recency_query = ''all:"autonomous agent" OR all:"large language model" OR all:"multi-agent"''\<close>

definition useRelevanceStrategy :: "arxiv_env \<Rightarrow> RecommendationContext \<Rightarrow> bool" where
  "useRelevanceStrategy env context =
     (length (ctx_likedPapers context) > 0 \<and> random env > 0.5)"

definition targetUrl_of :: "arxiv_env \<Rightarrow> nat \<Rightarrow> RecommendationContext \<Rightarrow> string" where
  "targetUrl_of env startIndex context =
     (let (query, sortBy, finalStartIndex) =
            (if useRelevanceStrategy env context
             then (relevance_query (extractKeywords (ctx_likedPapers context)),
                   ''relevance'', startIndex mod 50)
             else (recency_query, ''submittedDate'', startIndex));
          encodedQuery = encodeURIComponent query
      in baseUrl @ ''?search_query='' @ encodedQuery @ ''&start='' @ show_nat finalStartIndex
         @ ''&max_results=5&sortBy='' @ sortBy @ ''&sortOrder=descending'')"

definition fetchFromArxiv :: "arxiv_env \<Rightarrow> nat \<Rightarrow> RecommendationContext \<Rightarrow> RawArxivPaper list" where
  "fetchFromArxiv env startIndex context =
     try_proxies env (targetUrl_of env startIndex context) proxies"

section \<open>Enrichment stage\<close>

text \<open>
  The outside world of \<^verbatim>\<open>enrichPapersWithGemini\<close>: what awaiting \<^verbatim>\<open>generateContent\<close>
  gives (a rejection, or a response whose \<^verbatim>\<open>text\<close> may be undefined), and \<^verbatim>\<open>JSON.parse\<close>
  (\<open>Inl\<close> when it throws). The reply is arbitrary, so it need not depend on the prompt.
\<close>

record gemini_env =
  generateContent :: "exn + string option"
  JSON_parse :: "string \<Rightarrow> exn + json"

text \<open>JavaScript truthiness of a parsed JSON value.\<close>

fun truthy :: "json \<Rightarrow> bool" where
  "truthy JNull = False"
| "truthy (JBool b) = b"
| "truthy (JNumber n) = (n \<noteq> 0)"
| "truthy (JString s) = (s \<noteq> [])"
| "truthy (JArray xs) = True"
| "truthy (JObject kvs) = True"

definition or_default :: "json option \<Rightarrow> json \<Rightarrow> json" where
  \<comment> \<open>\<^verbatim>\<open>x || d\<close>, with \<open>None\<close> for \<^verbatim>\<open>undefined\<close>\<close>
  "or_default x d = (case x of None \<Rightarrow> d | Some v \<Rightarrow> if truthy v then v else d)"

text \<open>
  Reading one of the properties \<^verbatim>\<open>id\<close>, \<^verbatim>\<open>abstract_zh\<close>, \<^verbatim>\<open>tldr\<close>, \<^verbatim>\<open>tags\<close>: on \<^verbatim>\<open>null\<close>
  it throws a TypeError; an object gives the member of that name or \<^verbatim>\<open>undefined\<close>; arrays,
  strings, numbers and booleans have no property of these names.
\<close>

fun get_prop :: "json \<Rightarrow> string \<Rightarrow> exn + json option" where
  "get_prop JNull key = Inl TypeError"
| "get_prop (JObject kvs) key = Inr (map_of kvs key)"
| "get_prop v key = Inr None"

text \<open>\<^verbatim>\<open>es.find(e => e.id === rid)\<close> on the elements of an array, from the left.\<close>

fun find_in :: "json list \<Rightarrow> string \<Rightarrow> exn + json option" where
  "find_in [] rid = Inr None"
| "find_in (e # es) rid =
     (case get_prop e ''id'' of
        Inl x \<Rightarrow> Inl x
      | Inr v \<Rightarrow> if v = Some (JString rid) then Inr (Some e) else find_in es rid)"

text \<open>
  \<^verbatim>\<open>enrichedData.find(...)\<close>: only an array has a \<^verbatim>\<open>find\<close> method; on any other parsed
  value the call throws a TypeError.
\<close>

fun find_entry :: "json \<Rightarrow> string \<Rightarrow> exn + json option" where
  "find_entry (JArray es) rid = find_in es rid"
| "find_entry v rid = Inl TypeError"

definition translating_placeholder :: string where
  "translating_placeholder = [CHR 0xE7, CHR 0xBF, CHR 0xBB, CHR 0xE8, CHR 0xAF, CHR 0x91, CHR 0xE7, CHR 0x94, CHR 0x9F, CHR 0xE6, CHR 0x88, CHR 0x90, CHR 0xE4, CHR 0xB8, CHR 0xAD] @ ''... (Translating...)''"

definition busy_placeholder :: string where
  "busy_placeholder = [CHR 0xE6, CHR 0x9A, CHR 0x82, CHR 0xE6, CHR 0x97, CHR 0xA0, CHR 0xE7, CHR 0xBF, CHR 0xBB, CHR 0xE8, CHR 0xAF, CHR 0x91] @ '' (AI'' @ [CHR 0xE6, CHR 0x9C, CHR 0x8D, CHR 0xE5, CHR 0x8A, CHR 0xA1, CHR 0xE7, CHR 0xB9, CHR 0x81, CHR 0xE5, CHR 0xBF, CHR 0x99] @ '')''"

text \<open>The callback of \<^verbatim>\<open>rawPapers.map\<close> in the \<^verbatim>\<open>try\<close> block.\<close>

definition merge_paper :: "json \<Rightarrow> RawArxivPaper \<Rightarrow> exn + Paper" where
  "merge_paper enrichedData raw =
     (case find_entry enrichedData (raw_id raw) of
        Inl x \<Rightarrow> Inl x
      | Inr found \<Rightarrow>
          (let enriched = or_default found (JObject []) in
           case (get_prop enriched ''abstract_zh'', get_prop enriched ''tldr'',
                 get_prop enriched ''tags'') of
             (Inr zh_v, Inr tldr_v, Inr tags_v) \<Rightarrow>
               Inr \<lparr>paper_id = raw_id raw, title = raw_title raw, authors = raw_authors raw,
                    year = published raw, abstract_en = summary raw,
                    abstract_zh = or_default zh_v (JString translating_placeholder),
                    tldr = or_default tldr_v (JString (raw_title raw)),
                    tags = or_default tags_v (JArray [JString ''New Paper''])\<rparr>
           | _ \<Rightarrow> Inl TypeError))"

text \<open>\<^verbatim>\<open>xs.map(f)\<close> where \<open>f\<close> may throw: the first throw ends the map.\<close>

fun map_throwing :: "('a \<Rightarrow> exn + 'b) \<Rightarrow> 'a list \<Rightarrow> exn + 'b list" where
  "map_throwing f [] = Inr []"
| "map_throwing f (x # xs) =
     (case f x of
        Inl e \<Rightarrow> Inl e
      | Inr y \<Rightarrow> (case map_throwing f xs of Inl e \<Rightarrow> Inl e | Inr ys \<Rightarrow> Inr (y # ys)))"

text \<open>The callback of \<^verbatim>\<open>rawPapers.map\<close> in the \<^verbatim>\<open>catch\<close> block.\<close>

definition fallback_paper :: "RawArxivPaper \<Rightarrow> Paper" where
  "fallback_paper raw =
     \<lparr>paper_id = raw_id raw, title = raw_title raw, authors = raw_authors raw,
      year = published raw, abstract_en = summary raw,
      abstract_zh = JString busy_placeholder,
      tldr = JString ''New ArXiv Paper'',
      tags = JArray [JString ''ArXiv'']\<rparr>"

text \<open>The body of the outer \<^verbatim>\<open>try\<close> block; \<open>Inl\<close> is a throw, which the \<^verbatim>\<open>catch\<close> receives.\<close>

text \<open>
  From \<^verbatim>\<open>response.text\<close> to \<^verbatim>\<open>enrichedData\<close>: the text, or \<^verbatim>\<open>"[]"\<close> when it is undefined
  or empty, is parsed; when \<^verbatim>\<open>JSON.parse\<close> throws, \<^verbatim>\<open>enrichedData\<close> keeps its initial
  value, the empty array.
\<close>

definition jsonText_of :: "string option \<Rightarrow> string" where
  "jsonText_of response_text =
     (case response_text of None \<Rightarrow> ''[]'' | Some t \<Rightarrow> if t = [] then ''[]'' else t)"

definition enrichedData_of :: "gemini_env \<Rightarrow> string option \<Rightarrow> json" where
  "enrichedData_of genv response_text =
     (case JSON_parse genv (jsonText_of response_text) of
        Inl e \<Rightarrow> JArray []
      | Inr v \<Rightarrow> v)"

definition enrich_try :: "gemini_env \<Rightarrow> RawArxivPaper list \<Rightarrow> exn + Paper list" where
  "enrich_try genv rawPapers =
     (case generateContent genv of
        Inl e \<Rightarrow> Inl e
      | Inr response_text \<Rightarrow>
          map_throwing (merge_paper (enrichedData_of genv response_text)) rawPapers)"

definition enrichPapersWithGemini :: "gemini_env \<Rightarrow> RawArxivPaper list \<Rightarrow> Paper list" where
  "enrichPapersWithGemini genv rawPapers =
     (if length rawPapers = 0 then []
      else (case enrich_try genv rawPapers of
              Inr mergedPapers \<Rightarrow> mergedPapers
            | Inl e \<Rightarrow> map fallback_paper rawPapers))"

definition fetchRecommendations ::
  "arxiv_env \<Rightarrow> gemini_env \<Rightarrow> RecommendationContext \<Rightarrow> nat \<Rightarrow> Paper list" where
  "fetchRecommendations env genv context startIndex =
     (let rawPapers = fetchFromArxiv env startIndex context
      in enrichPapersWithGemini genv rawPapers)"

section \<open>Buffer manager\<close>

text \<open>
  A state update queued by a \<^verbatim>\<open>set...\<close> call of \<^verbatim>\<open>App\<close>: \<^verbatim>\<open>setPapers(remainingPapers)\<close>
  writes a value; \<^verbatim>\<open>setPapers(prev => [...prev, ...uniqueNew])\<close> is an updater, whose closure
  holds \<^verbatim>\<open>currentLiked\<close> and \<^verbatim>\<open>newPapers\<close>; \<^verbatim>\<open>setLikedPapers(prev => [...prev, currentPaper])\<close>
  is an updater; \<^verbatim>\<open>setLoading\<close> writes a value.
\<close>

datatype state_update =
    SetPapers "Paper list"
  | AppendUniqueNew "Paper list" "Paper list"
  | AppendLiked Paper
  | SetLoading bool

text \<open>
  The session state of \<^verbatim>\<open>App\<close>. The React state \<^verbatim>\<open>papers\<close> (the buffer, front first),
  \<^verbatim>\<open>likedPapers\<close> and \<^verbatim>\<open>loading\<close> are the values of the last render: what the screen
  shows and what the handlers and effects created by that render read. A \<^verbatim>\<open>set...\<close> call
  does not change them; it appends to \<open>queue\<close>, the updates made since the last render,
  oldest first. The two refs change at once. An \<^verbatim>\<open>async\<close> call of \<^verbatim>\<open>loadMorePapers\<close> runs
  up to its \<^verbatim>\<open>await\<close>, is suspended, and is resumed when the awaited promise settles;
  \<open>suspended\<close> lists the calls waiting at the \<^verbatim>\<open>await\<close>, each with the arguments its
  closure captured. Nothing in the language bounds that list: only the guard on
  \<^verbatim>\<open>fetchingRef\<close> does.
\<close>

record suspended_call =
  call_currentLiked :: "Paper list"
  call_startIndex :: nat

record session =
  papers :: "Paper list"
  likedPapers :: "Paper list"
  loading :: bool
  fetchingRef :: bool
  nextStartIndexRef :: nat
  suspended :: "suspended_call list"
  queue :: "state_update list"

definition PREFETCH_THRESHOLD :: nat where
  "PREFETCH_THRESHOLD = 4"

definition initial_session :: session where
  "initial_session =
     \<lparr>papers = [], likedPapers = [], loading = True, fetchingRef = False,
      nextStartIndexRef = 0, suspended = [], queue = []\<rparr>"

definition context_of :: "Paper list \<Rightarrow> RecommendationContext" where
  "context_of currentLiked =
     \<lparr>ctx_likedPapers = map title currentLiked, ctx_dislikedPapers = [],
      ctx_currentFocus = ''AI Agents''\<rparr>"

text \<open>\<^verbatim>\<open>loadMorePapers\<close> from its entry to the \<^verbatim>\<open>await\<close>, which runs synchronously.\<close>

definition loadMorePapers_call :: "Paper list \<Rightarrow> bool \<Rightarrow> session \<Rightarrow> session" where
  "loadMorePapers_call currentLiked isInitialLoad s =
     (if fetchingRef s then s
      else s\<lparr>fetchingRef := True,
             queue := queue s @ (if isInitialLoad then [SetLoading True] else []),
             suspended := suspended s @
                [\<lparr>call_currentLiked = currentLiked, call_startIndex = nextStartIndexRef s\<rparr>]\<rparr>)"

text \<open>The filter inside the \<^verbatim>\<open>setPapers\<close> updater.\<close>

definition uniqueNew :: "Paper list \<Rightarrow> Paper list \<Rightarrow> Paper list \<Rightarrow> Paper list" where
  "uniqueNew prev currentLiked newPapers =
     (let existingIds = set (map paper_id prev);
          currentLikedIds = set (map paper_id currentLiked)
      in filter (\<lambda>p. paper_id p \<notin> existingIds \<and> paper_id p \<notin> currentLikedIds) newPapers)"

text \<open>
  \<^verbatim>\<open>loadMorePapers\<close> from the \<^verbatim>\<open>await\<close> to its end, for a call that captured
  \<open>currentLiked\<close>: the awaited promise resolved with \<open>Inr newPapers\<close> or rejected with
  \<open>Inl e\<close> (the \<^verbatim>\<open>catch\<close> only logs); the \<^verbatim>\<open>finally\<close> block runs in both cases. The
  cursor and the flag are refs and change here; the buffer and \<^verbatim>\<open>loading\<close> change at the
  next render.
\<close>

definition loadMorePapers_resume :: "exn + Paper list \<Rightarrow> Paper list \<Rightarrow> session \<Rightarrow> session" where
  "loadMorePapers_resume result currentLiked s =
     (let s' = (case result of
                  Inr newPapers \<Rightarrow>
                    if length newPapers > 0
                    then s\<lparr>nextStartIndexRef := nextStartIndexRef s + length newPapers,
                           queue := queue s @ [AppendUniqueNew currentLiked newPapers]\<rparr>
                    else s
                | Inl e \<Rightarrow> s)
      in s'\<lparr>queue := queue s' @ [SetLoading False], fetchingRef := False\<rparr>)"

text \<open>
  \<^verbatim>\<open>handleSwipe\<close>. It reads \<^verbatim>\<open>papers\<close> of the last render, writes the rest of that
  array as a value, and for a right swipe queues an updater that appends the front record.
  With an empty buffer \<^verbatim>\<open>papers[0]\<close> is \<^verbatim>\<open>undefined\<close>, which is no \<^typ>\<open>Paper\<close>: that case is
  \<open>None\<close>. Both callers have a card on the screen.
\<close>

definition handleSwipe :: "SwipeDirection \<Rightarrow> session \<Rightarrow> session option" where
  "handleSwipe direction s =
     (case papers s of
        [] \<Rightarrow> None
      | currentPaper # remainingPapers \<Rightarrow>
          Some (s\<lparr>queue := queue s @ SetPapers remainingPapers
                              # (if direction = RIGHT then [AppendLiked currentPaper] else [])\<rparr>))"

definition manualSwipe :: "SwipeDirection \<Rightarrow> session \<Rightarrow> session option" where
  "manualSwipe direction s =
     (if length (papers s) > 0 then handleSwipe direction s else Some s)"

text \<open>The body of the prefetch effect.\<close>

definition prefetchEffect :: "session \<Rightarrow> session" where
  "prefetchEffect s =
     (if length (papers s) < PREFETCH_THRESHOLD \<and> \<not> fetchingRef s \<and> length (papers s) > 0
      then loadMorePapers_call (likedPapers s) False s
      else s)"

text \<open>What a queued update does to the state when a render processes it.\<close>

fun apply_update :: "state_update \<Rightarrow> session \<Rightarrow> session" where
  "apply_update (SetPapers remainingPapers) s = s\<lparr>papers := remainingPapers\<rparr>"
| "apply_update (AppendUniqueNew currentLiked newPapers) s =
     s\<lparr>papers := papers s @ uniqueNew (papers s) currentLiked newPapers\<rparr>"
| "apply_update (AppendLiked currentPaper) s = s\<lparr>likedPapers := likedPapers s @ [currentPaper]\<rparr>"
| "apply_update (SetLoading b) s = s\<lparr>loading := b\<rparr>"

text \<open>
  A render: the queued updates are applied in the order they were queued, and React runs
  the prefetch effect afterwards only when one of its dependencies, \<^verbatim>\<open>papers.length\<close> and
  \<^verbatim>\<open>likedPapers\<close>, has changed (\<^verbatim>\<open>loadMorePapers\<close> never changes); \<^verbatim>\<open>likedPapers\<close> is only
  ever replaced by a longer array, so a new array is a new value.
\<close>

definition effect_deps :: "session \<Rightarrow> nat \<times> Paper list" where
  "effect_deps s = (length (papers s), likedPapers s)"

definition flush_queue :: "session \<Rightarrow> session" where
  "flush_queue s = fold apply_update (queue s) (s\<lparr>queue := []\<rparr>)"

definition render :: "session \<Rightarrow> session" where
  "render s =
     (let s' = flush_queue s
      in if effect_deps s' \<noteq> effect_deps s then prefetchEffect s' else s')"

text \<open>
  What happens to a mounted session: a swipe (drag of the front card or a footer button), a
  click on the reload button (rendered only while the buffer is empty and \<^verbatim>\<open>loading\<close> is
  false), the promise awaited by the \<open>i\<close>-th suspended call settling, or a render. React
  renders after a handler has queued updates, but not at once after a promise continuation
  has, so an event can be handled between a continuation and the render of its updates:
  the events come in any order, with or without a render between two of them. The states
  after a render are the observed states of the session.
\<close>

datatype event = Swipe SwipeDirection | Reload | Settle nat "exn + Paper list" | Render

fun step :: "event \<Rightarrow> session \<Rightarrow> session" where
  "step (Swipe direction) s =
     (case manualSwipe direction s of Some s' \<Rightarrow> s' | None \<Rightarrow> s)"
| "step Reload s =
     (if length (papers s) = 0 \<and> \<not> loading s
      then loadMorePapers_call (likedPapers s) True s else s)"
| "step (Settle i result) s =
     (if i < length (suspended s)
      then loadMorePapers_resume result (call_currentLiked (suspended s ! i))
             (s\<lparr>suspended := take i (suspended s) @ drop (Suc i) (suspended s)\<rparr>)
      else s)"
| "step Render s = render s"

fun run :: "event list \<Rightarrow> session \<Rightarrow> session" where
  "run [] s = s"
| "run (ev # evs) s = run evs (step ev s)"

text \<open>Every event other than a promise settling: what the user does, and the renders.\<close>

definition user_event :: "event \<Rightarrow> bool" where
  "user_event ev = (case ev of Settle i result \<Rightarrow> False | _ \<Rightarrow> True)"

text \<open>
  Mounting renders the initial state and runs the initial-load effect,
  \<^verbatim>\<open>loadMorePapers([], true)\<close>, and the prefetch effect, which finds the buffer empty.
\<close>

definition startup :: session where
  "startup = prefetchEffect (loadMorePapers_call [] True initial_session)"

text \<open>
  The settling of the \<open>i\<close>-th suspended call with what \<^verbatim>\<open>fetchRecommendations\<close> computes
  from the arguments that call passed, in a given outside world.
\<close>

definition settle_fetch :: "arxiv_env \<Rightarrow> gemini_env \<Rightarrow> nat \<Rightarrow> session \<Rightarrow> event" where
  "settle_fetch env genv i s =
     Settle i (Inr (fetchRecommendations env genv
                      (context_of (call_currentLiked (suspended s ! i)))
                      (call_startIndex (suspended s ! i))))"

text \<open>No identifier occurs twice across the buffer and the liked collection.\<close>

definition ids_unique :: "session \<Rightarrow> bool" where
  "ids_unique s = distinct (map paper_id (papers s @ likedPapers s))"

text \<open>The guard: at most one suspended call, and the flag is set exactly while there is one.\<close>

definition guard_inv :: "session \<Rightarrow> bool" where
  "guard_inv s = (length (suspended s) \<le> 1 \<and> (fetchingRef s \<longleftrightarrow> suspended s \<noteq> []))"

text \<open>
  The entries of the parsed reply that match an identifier: the elements of the array that
  are objects whose \<^verbatim>\<open>id\<close> member is that string. A reply that is no array has none.
\<close>

definition matching_entries :: "json \<Rightarrow> string \<Rightarrow> json list" where
  "matching_entries enrichedData rid =
     (case enrichedData of
        JArray es \<Rightarrow> filter (\<lambda>e. get_prop e ''id'' = Inr (Some (JString rid))) es
      | _ \<Rightarrow> [])"

text \<open>The fields of a record that come from the search feed.\<close>

definition raw_fields :: "RawArxivPaper \<Rightarrow> string \<times> string \<times> string list \<times> string \<times> string" where
  "raw_fields r = (raw_id r, raw_title r, raw_authors r, published r, summary r)"

definition feed_fields :: "Paper \<Rightarrow> string \<times> string \<times> string list \<times> string \<times> string" where
  "feed_fields p = (paper_id p, title p, authors p, year p, abstract_en p)"

section \<open>Example inputs\<close>

definition example_raw1 :: RawArxivPaper where
  "example_raw1 =
     \<lparr>raw_id = ''2301.00001'', raw_title = ''Large Language Model Agents'',
      raw_authors = [''A. Author''], published = ''2023-01-01'', summary = ''First abstract.''\<rparr>"

definition example_raw2 :: RawArxivPaper where
  "example_raw2 =
     \<lparr>raw_id = ''2301.00002'', raw_title = ''Autonomous Planning Systems'',
      raw_authors = [''B. Author'', ''C. Author''], published = ''2023-01-02'',
      summary = ''Second abstract.''\<rparr>"

text \<open>A reply that annotates the second record only, next to an entry that is no object.\<close>

definition example_reply :: json where
  "example_reply =
     JArray [JNumber 7,
             JObject [(''id'', JString ''2301.00002''), (''abstract_zh'', JString ''zh''),
                      (''tldr'', JString ''Plans.''), (''tags'', JArray [JString ''Planning''])]]"

definition example_genv :: gemini_env where
  "example_genv = \<lparr>generateContent = Inr (Some ''[...]''), JSON_parse = (\<lambda>t. Inr example_reply)\<rparr>"

definition unparsable_genv :: gemini_env where
  "unparsable_genv = \<lparr>generateContent = Inr (Some ''Sorry''), JSON_parse = (\<lambda>t. Inl SyntaxError)\<rparr>"

definition failing_genv :: gemini_env where
  "failing_genv = \<lparr>generateContent = Inl (Error ''503''), JSON_parse = (\<lambda>t. Inl SyntaxError)\<rparr>"

section \<open>Proxy replies\<close>

text \<open>
  A reply the loop accepts: \<^verbatim>\<open>fetch\<close> resolved, \<^verbatim>\<open>response.ok\<close> holds, the text was read and
  it contains \<^verbatim>\<open><feed\<close> or \<^verbatim>\<open><entry\<close>; and the records parsed from such a reply.
\<close>

definition usable :: "exn + http_response \<Rightarrow> bool" where
  "usable r =
     (case r of
        Inl e \<Rightarrow> False
      | Inr response \<Rightarrow>
          ok response \<and>
          (case text_of response of
             Inl e \<Rightarrow> False
           | Inr str \<Rightarrow> includes_str str ''<feed'' \<or> includes_str str ''<entry''))"

definition records_of :: "arxiv_env \<Rightarrow> exn + http_response \<Rightarrow> RawArxivPaper list" where
  "records_of env r =
     (case r of
        Inl e \<Rightarrow> []
      | Inr response \<Rightarrow>
          (case text_of response of
             Inl e \<Rightarrow> []
           | Inr str \<Rightarrow> map parse_entry (DOMParser_entries env str)))"

section \<open>Example worlds of the fetcher\<close>

definition example_entry :: xml_entry where
  "example_entry =
     \<lparr>entry_id = Some ''http://arxiv.org/abs/2301.00001v2'',
      entry_title = Some ''Large Language Model Agents'',
      entry_summary = Some ''First abstract.'',
      entry_published = Some ''2023-01-01T10:00:00Z'',
      entry_authors = [Some ''A. Author'']\<rparr>"

definition example_env :: arxiv_env where
  "example_env =
     \<lparr>random = 0.25,
      fetch = (\<lambda>url. if starts_with ''https://api.allorigins.win/'' url
                      then Inr \<lparr>ok = False, status = 503, text_of = Inr ''Service Unavailable''\<rparr>
                      else Inr \<lparr>ok = True, status = 200, text_of = Inr ''<feed><entry/></feed>''\<rparr>),
      DOMParser_entries = (\<lambda>str. [example_entry])\<rparr>"

definition dead_env :: arxiv_env where
  "dead_env = \<lparr>random = 0.25, fetch = (\<lambda>url. Inl TypeError), DOMParser_entries = (\<lambda>str. [])\<rparr>"

section \<open>The keyword extractor in the words of its description\<close>

text \<open>
  Deduplication that keeps the first occurrence of every element, in the order of first
  occurrence.
\<close>

primrec dedup_first :: "'a list \<Rightarrow> 'a list" where
  "dedup_first [] = []"
| "dedup_first (x # xs) = x # removeAll x (dedup_first xs)"

text \<open>A qualifying token: longer than 4 characters and not a stop word.\<close>

definition qualifies :: "string \<Rightarrow> bool" where
  "qualifies w = (4 < length w \<and> w \<notin> set stopWords)"

text \<open>
  The tokens of the last three titles, taken in the order of the list (the oldest of the
  three first), joined by a space, lowercased and split at the non-word characters.
\<close>

definition recent_tokens :: "string list \<Rightarrow> string list" where
  "recent_tokens titles = split_nonword [] (toLowerCase (join '' '' (rev (take 3 (rev titles)))))"

definition keywords_spec :: "string list \<Rightarrow> string list" where
  "keywords_spec titles = take 3 (dedup_first (filter qualifies (recent_tokens titles)))"

text \<open>
  The reading "first-seen order in the recency-reversed-then-joined input": the last three
  titles are put most recent first, then joined; the rest is as above.
\<close>

definition keywords_recency_reversed :: "string list \<Rightarrow> string list" where
  "keywords_recency_reversed titles =
     take 3 (dedup_first (filter qualifies
       (split_nonword [] (toLowerCase (join '' '' (take 3 (rev titles)))))))"

definition example_titles :: "string list" where
  "example_titles = [''Large Language Model Agents'', ''Autonomous Planning Systems'',
                     ''Multi Agent Coordination'']"

section \<open>Example sessions\<close>

definition example_paper :: "string \<Rightarrow> Paper" where
  "example_paper ident =
     \<lparr>paper_id = ident, title = ''Large Language Model Agents'', authors = [''A. Author''],
      year = ''2023-01-01'', abstract_en = ''An abstract.'', abstract_zh = JString ''zh'',
      tldr = JString ''Agents.'', tags = JArray [JString ''LLM'']\<rparr>"

definition idle_example :: session where
  "idle_example =
     \<lparr>papers = [example_paper ''2301.00001'', example_paper ''2301.00002'',
                example_paper ''2301.00003''],
      likedPapers = [example_paper ''2301.00004''], loading = False, fetchingRef = False,
      nextStartIndexRef = 5, suspended = [], queue = []\<rparr>"

definition numbered_entry :: "string \<Rightarrow> xml_entry" where
  "numbered_entry ident =
     \<lparr>entry_id = Some (''http://arxiv.org/abs/'' @ ident @ ''v1''),
      entry_title = Some ''Large Language Model Agents'',
      entry_summary = Some ''An abstract.'',
      entry_published = Some ''2023-01-01T10:00:00Z'',
      entry_authors = [Some ''A. Author'']\<rparr>"

definition five_env :: arxiv_env where
  "five_env =
     \<lparr>random = 0.25,
      fetch = (\<lambda>url. Inr \<lparr>ok = True, status = 200, text_of = Inr ''<feed>...</feed>''\<rparr>),
      DOMParser_entries =
        (\<lambda>str. map numbered_entry [''2301.00002'', ''2301.00003'', ''2301.00004'',
                                   ''2301.00005'', ''2301.00006''])\<rparr>"

definition fresh_example :: session where
  "fresh_example =
     \<lparr>papers = [example_paper ''2301.00002'', example_paper ''2301.00003''],
      likedPapers = [example_paper ''2301.00004''], loading = False, fetchingRef = False,
      nextStartIndexRef = 0, suspended = [], queue = []\<rparr>"

text \<open>
  The first batch arrives with three records and is rendered, which starts a prefetch at
  once (three is below the threshold); the user likes the front record while that prefetch
  is in flight; the prefetch then returns the liked record again, next to a new one.
\<close>

definition liked_in_flight_run :: "event list" where
  "liked_in_flight_run =
     [Settle 0 (Inr (map example_paper [''2301.00001'', ''2301.00002'', ''2301.00003''])),
      Render,
      Swipe RIGHT,
      Render,
      Settle 0 (Inr (map example_paper [''2301.00001'', ''2301.00004''])),
      Render]"

text \<open>
  The same start, but the prefetch returns the liked record alone: a batch with nothing
  that the buffer or the liked collection does not have.
\<close>

definition nothing_new_run :: "event list" where
  "nothing_new_run =
     [Settle 0 (Inr (map example_paper [''2301.00001'', ''2301.00002'', ''2301.00003''])),
      Render,
      Swipe RIGHT,
      Render,
      Settle 0 (Inr (map example_paper [''2301.00001''])),
      Render]"

text \<open>
  The first batch arrives with three records and is rendered, which starts a prefetch; the
  prefetch resolves with two new records. In the first run the user swipes left after the
  render that follows; in the second the swipe is handled before that render.
\<close>

definition swipe_after_render_run :: "event list" where
  "swipe_after_render_run =
     [Settle 0 (Inr (map example_paper [''2301.00001'', ''2301.00002'', ''2301.00003''])),
      Render,
      Settle 0 (Inr (map example_paper [''2301.00004'', ''2301.00005''])),
      Render,
      Swipe LEFT,
      Render]"

definition swipe_before_render_run :: "event list" where
  "swipe_before_render_run =
     [Settle 0 (Inr (map example_paper [''2301.00001'', ''2301.00002'', ''2301.00003''])),
      Render,
      Settle 0 (Inr (map example_paper [''2301.00004'', ''2301.00005''])),
      Swipe LEFT,
      Render]"

section \<open>Properties of the enrichment stage\<close>

lemma map_throwing_Inr:
  "map_throwing f xs = Inr ys \<Longrightarrow> length ys = length xs \<and> (\<forall>i<length xs. f (xs ! i) = Inr (ys ! i))"
proof (induction xs arbitrary: ys)
  case Nil
  then show ?case by simp
next
  case (Cons x xs)
  from Cons.prems obtain y ys' where fx: "f x = Inr y" and rest: "map_throwing f xs = Inr ys'"
    and ys: "ys = y # ys'"
    by (auto split: sum.splits)
  from Cons.IH [OF rest] have len: "length ys' = length xs"
    and nth: "\<forall>i<length xs. f (xs ! i) = Inr (ys' ! i)" by simp_all
  show ?case
  proof (intro conjI allI impI)
    show "length ys = length (x # xs)" using len ys by simp
  next
    fix i assume "i < length (x # xs)"
    then show "f ((x # xs) ! i) = Inr (ys ! i)"
      using fx nth ys by (cases i) simp_all
  qed
qed

lemma merge_paper_feed_fields:
  "merge_paper d r = Inr p \<Longrightarrow> feed_fields p = raw_fields r"
  by (auto simp: merge_paper_def feed_fields_def raw_fields_def Let_def split: sum.splits)

lemma fallback_paper_feed_fields: "feed_fields (fallback_paper r) = raw_fields r"
  by (simp add: fallback_paper_def feed_fields_def raw_fields_def)

lemma enrich_try_feed_fields:
  assumes "enrich_try genv raws = Inr ps"
  shows "map feed_fields ps = map raw_fields raws"
proof -
  from assms obtain d where mt: "map_throwing (merge_paper d) raws = Inr ps"
    by (auto simp: enrich_try_def split: sum.splits)
  from map_throwing_Inr [OF mt] have len: "length ps = length raws"
    and nth: "\<forall>i<length raws. merge_paper d (raws ! i) = Inr (ps ! i)" by simp_all
  show ?thesis
  proof (rule nth_equalityI)
    show "length (map feed_fields ps) = length (map raw_fields raws)" using len by simp
  next
    fix i assume "i < length (map feed_fields ps)"
    then have i: "i < length raws" using len by simp
    with nth have "merge_paper d (raws ! i) = Inr (ps ! i)" by simp
    from merge_paper_feed_fields [OF this] show "map feed_fields ps ! i = map raw_fields raws ! i"
      using i len by simp
  qed
qed

lemma enrich_feed_fields:
  "map feed_fields (enrichPapersWithGemini genv raws) = map raw_fields raws"
proof (cases "enrich_try genv raws")
  case (Inl e)
  then show ?thesis
    by (simp add: enrichPapersWithGemini_def fallback_paper_feed_fields)
next
  case (Inr ps)
  from enrich_try_feed_fields [OF Inr] show ?thesis
    using Inr by (simp add: enrichPapersWithGemini_def)
qed

lemma find_in_no_match:
  "find_in es rid = Inr found \<Longrightarrow>
   filter (\<lambda>e. get_prop e ''id'' = Inr (Some (JString rid))) es = [] \<Longrightarrow> found = None"
proof (induction es)
  case Nil
  then show ?case by simp
next
  case (Cons e es)
  from Cons.prems(2) have ne: "get_prop e ''id'' \<noteq> Inr (Some (JString rid))"
    and rest: "filter (\<lambda>e. get_prop e ''id'' = Inr (Some (JString rid))) es = []"
    by (auto split: if_splits)
  from Cons.prems(1) ne have "find_in es rid = Inr found"
    by (auto split: sum.splits if_splits)
  from Cons.IH [OF this rest] show ?case .
qed

lemma find_entry_no_match:
  "find_entry d rid = Inr found \<Longrightarrow> matching_entries d rid = [] \<Longrightarrow> found = None"
  by (cases d) (auto simp: matching_entries_def dest: find_in_no_match)

lemma merge_paper_no_match:
  assumes "merge_paper d r = Inr p" and "matching_entries d (raw_id r) = []"
  shows "abstract_en p = summary r \<and> abstract_zh p = JString translating_placeholder
         \<and> tldr p = JString (raw_title r) \<and> tags p = JArray [JString ''New Paper'']"
proof -
  from assms(1) obtain found where f: "find_entry d (raw_id r) = Inr found"
    by (auto simp: merge_paper_def split: sum.splits)
  from find_entry_no_match [OF f assms(2)] have "found = None" .
  with assms(1) f show ?thesis
    by (auto simp: merge_paper_def or_default_def)
qed

lemma find_in_no_null:
  "JNull \<notin> set es \<Longrightarrow> \<exists>found. find_in es rid = Inr found"
proof (induction es)
  case Nil
  then show ?case by simp
next
  case (Cons e es)
  then have "e \<noteq> JNull" and "\<exists>found. find_in es rid = Inr found" by auto
  then show ?case by (cases e) auto
qed

lemma get_prop_truthy: "truthy v \<Longrightarrow> \<exists>x. get_prop v key = Inr x"
  by (cases v) auto

lemma or_default_truthy: "truthy d \<Longrightarrow> truthy (or_default x d)"
  by (auto simp: or_default_def split: option.splits)

lemma merge_paper_no_null:
  assumes "JNull \<notin> set es"
  shows "\<exists>p. merge_paper (JArray es) r = Inr p"
proof -
  from find_in_no_null [OF assms] obtain found where f: "find_in es (raw_id r) = Inr found"
    by blast
  have t: "truthy (or_default found (JObject []))" by (rule or_default_truthy) simp
  from get_prop_truthy [OF t] obtain a b c where
    "get_prop (or_default found (JObject [])) ''abstract_zh'' = Inr a"
    "get_prop (or_default found (JObject [])) ''tldr'' = Inr b"
    "get_prop (or_default found (JObject [])) ''tags'' = Inr c"
    by metis
  with f show ?thesis by (simp add: merge_paper_def)
qed

lemma map_throwing_total:
  "(\<And>x. \<exists>y. f x = Inr y) \<Longrightarrow> \<exists>ys. map_throwing f xs = Inr ys"
proof (induction xs)
  case Nil
  then show ?case by simp
next
  case (Cons x xs)
  then obtain y ys where "f x = Inr y" "map_throwing f xs = Inr ys" by metis
  then show ?case by simp
qed

lemma enrich_rejected:
  "generateContent genv = Inl e \<Longrightarrow> enrichPapersWithGemini genv raws = map fallback_paper raws"
  by (simp add: enrichPapersWithGemini_def enrich_try_def)

lemma enrich_no_match:
  assumes i: "i < length raws" and g: "generateContent genv = Inr rtext"
    and nm: "matching_entries (enrichedData_of genv rtext) (raw_id (raws ! i)) = []"
  shows "abstract_en (enrichPapersWithGemini genv raws ! i) = summary (raws ! i) \<and>
         ((abstract_zh (enrichPapersWithGemini genv raws ! i) = JString translating_placeholder
           \<and> tags (enrichPapersWithGemini genv raws ! i) = JArray [JString ''New Paper''])
          \<or> (abstract_zh (enrichPapersWithGemini genv raws ! i) = JString busy_placeholder
           \<and> tags (enrichPapersWithGemini genv raws ! i) = JArray [JString ''ArXiv'']))"
proof (cases "enrich_try genv raws")
  case (Inl e)
  with i have "enrichPapersWithGemini genv raws ! i = fallback_paper (raws ! i)"
    by (auto simp: enrichPapersWithGemini_def)
  then show ?thesis by (simp add: fallback_paper_def)
next
  case (Inr ps)
  with g have mt: "map_throwing (merge_paper (enrichedData_of genv rtext)) raws = Inr ps"
    by (simp add: enrich_try_def)
  from map_throwing_Inr [OF mt] i
  have "merge_paper (enrichedData_of genv rtext) (raws ! i) = Inr (ps ! i)" by simp
  from merge_paper_no_match [OF this nm] Inr i show ?thesis
    by (auto simp: enrichPapersWithGemini_def)
qed

lemma enrich_no_match_no_null:
  assumes i: "i < length raws" and g: "generateContent genv = Inr rtext"
    and d: "enrichedData_of genv rtext = JArray es" and nn: "JNull \<notin> set es"
    and nm: "matching_entries (JArray es) (raw_id (raws ! i)) = []"
  shows "abstract_zh (enrichPapersWithGemini genv raws ! i) = JString translating_placeholder
         \<and> tldr (enrichPapersWithGemini genv raws ! i) = JString (raw_title (raws ! i))
         \<and> tags (enrichPapersWithGemini genv raws ! i) = JArray [JString ''New Paper'']"
proof -
  have "\<And>r. \<exists>p. merge_paper (JArray es) r = Inr p" by (rule merge_paper_no_null [OF nn])
  from map_throwing_total [of "merge_paper (JArray es)" raws, OF this]
  obtain ps where mt: "map_throwing (merge_paper (JArray es)) raws = Inr ps" by blast
  with g d have tr: "enrich_try genv raws = Inr ps" by (simp add: enrich_try_def)
  from map_throwing_Inr [OF mt] i
  have "merge_paper (JArray es) (raws ! i) = Inr (ps ! i)" by simp
  from merge_paper_no_match [OF this nm] tr i show ?thesis
    by (auto simp: enrichPapersWithGemini_def)
qed

text \<open>
  Claim C3. For every list of raw records and every behaviour of the generative-text
  service (a reply with or without matching entries, an unparsable reply, a rejected call),
  the enrichment stage returns exactly as many records as it was given, and the record at
  each position carries the identifier of the raw record at that position.
\<close>

theorem enrichment_one_to_one:
  "length (enrichPapersWithGemini genv rawPapers) = length rawPapers
   \<and> map paper_id (enrichPapersWithGemini genv rawPapers) = map raw_id rawPapers"
proof -
  have ff: "map feed_fields (enrichPapersWithGemini genv rawPapers) = map raw_fields rawPapers"
    by (rule enrich_feed_fields)
  have "length (map feed_fields (enrichPapersWithGemini genv rawPapers))
        = length (map raw_fields rawPapers)"
    using ff by simp
  then have len: "length (enrichPapersWithGemini genv rawPapers) = length rawPapers" by simp
  have "map fst (map feed_fields (enrichPapersWithGemini genv rawPapers))
        = map fst (map raw_fields rawPapers)"
    using ff by simp
  then have "map paper_id (enrichPapersWithGemini genv rawPapers) = map raw_id rawPapers"
    by (simp add: feed_fields_def raw_fields_def comp_def)
  with len show ?thesis by simp
qed

theorem enrichment_one_to_one_witness:
  "length (enrichPapersWithGemini example_genv [example_raw1, example_raw2]) = 2
   \<and> map paper_id (enrichPapersWithGemini example_genv [example_raw1, example_raw2])
       = [''2301.00001'', ''2301.00002'']
   \<and> length (enrichPapersWithGemini failing_genv [example_raw1, example_raw2]) = 2"
  using enrichment_one_to_one [of example_genv "[example_raw1, example_raw2]"]
    enrichment_one_to_one [of failing_genv "[example_raw1, example_raw2]"]
  by (simp add: example_raw1_def example_raw2_def)

text \<open>
  Claim C7. A raw record whose identifier matches no entry of the parsed reply (the reply
  may also be unparsable, which leaves the empty array) still has its record in the
  output, at its position, with the original English abstract, a placeholder translated
  abstract and a placeholder tag: the "translating" placeholder and the tag "New Paper"
  whenever the reply is an array without \<^verbatim>\<open>null\<close> elements or cannot be parsed, and
  otherwise either those or the fixed fallback annotation. When the call itself is rejected, every record of the
  batch is the fixed fallback record.
\<close>

theorem enrichment_fallbacks:
  "(\<forall>i rtext. i < length rawPapers \<and> generateContent genv = Inr rtext
        \<and> matching_entries (enrichedData_of genv rtext) (raw_id (rawPapers ! i)) = []
      \<longrightarrow> abstract_en (enrichPapersWithGemini genv rawPapers ! i) = summary (rawPapers ! i)
          \<and> ((abstract_zh (enrichPapersWithGemini genv rawPapers ! i)
                 = JString translating_placeholder
               \<and> tags (enrichPapersWithGemini genv rawPapers ! i) = JArray [JString ''New Paper''])
             \<or> (abstract_zh (enrichPapersWithGemini genv rawPapers ! i) = JString busy_placeholder
               \<and> tags (enrichPapersWithGemini genv rawPapers ! i) = JArray [JString ''ArXiv''])))
   \<and> (\<forall>i rtext es. i < length rawPapers \<and> generateContent genv = Inr rtext
        \<and> enrichedData_of genv rtext = JArray es \<and> JNull \<notin> set es
        \<and> matching_entries (JArray es) (raw_id (rawPapers ! i)) = []
      \<longrightarrow> abstract_zh (enrichPapersWithGemini genv rawPapers ! i) = JString translating_placeholder
          \<and> tags (enrichPapersWithGemini genv rawPapers ! i) = JArray [JString ''New Paper''])
   \<and> (\<forall>i rtext x. i < length rawPapers \<and> generateContent genv = Inr rtext
        \<and> JSON_parse genv (jsonText_of rtext) = Inl x
      \<longrightarrow> abstract_en (enrichPapersWithGemini genv rawPapers ! i) = summary (rawPapers ! i)
          \<and> abstract_zh (enrichPapersWithGemini genv rawPapers ! i) = JString translating_placeholder
          \<and> tags (enrichPapersWithGemini genv rawPapers ! i) = JArray [JString ''New Paper''])
   \<and> (\<forall>e. generateContent genv = Inl e
      \<longrightarrow> enrichPapersWithGemini genv rawPapers = map fallback_paper rawPapers)"
proof (intro conjI allI impI)
  fix i rtext
  assume "i < length rawPapers \<and> generateContent genv = Inr rtext
          \<and> matching_entries (enrichedData_of genv rtext) (raw_id (rawPapers ! i)) = []"
  then have h: "i < length rawPapers" "generateContent genv = Inr rtext"
    "matching_entries (enrichedData_of genv rtext) (raw_id (rawPapers ! i)) = []" by simp_all
  from enrich_no_match [OF h]
  show "abstract_en (enrichPapersWithGemini genv rawPapers ! i) = summary (rawPapers ! i)"
    and "(abstract_zh (enrichPapersWithGemini genv rawPapers ! i) = JString translating_placeholder
           \<and> tags (enrichPapersWithGemini genv rawPapers ! i) = JArray [JString ''New Paper''])
         \<or> (abstract_zh (enrichPapersWithGemini genv rawPapers ! i) = JString busy_placeholder
           \<and> tags (enrichPapersWithGemini genv rawPapers ! i) = JArray [JString ''ArXiv''])"
    by simp_all
next
  fix i rtext es
  assume "i < length rawPapers \<and> generateContent genv = Inr rtext
          \<and> enrichedData_of genv rtext = JArray es \<and> JNull \<notin> set es
          \<and> matching_entries (JArray es) (raw_id (rawPapers ! i)) = []"
  then have h: "i < length rawPapers" "generateContent genv = Inr rtext"
    "enrichedData_of genv rtext = JArray es" "JNull \<notin> set es"
    "matching_entries (JArray es) (raw_id (rawPapers ! i)) = []" by simp_all
  from enrich_no_match_no_null [OF h]
  show "abstract_zh (enrichPapersWithGemini genv rawPapers ! i) = JString translating_placeholder"
    and "tags (enrichPapersWithGemini genv rawPapers ! i) = JArray [JString ''New Paper'']"
    by simp_all
next
  fix i rtext x
  assume "i < length rawPapers \<and> generateContent genv = Inr rtext
          \<and> JSON_parse genv (jsonText_of rtext) = Inl x"
  then have i: "i < length rawPapers" and g: "generateContent genv = Inr rtext"
    and p: "JSON_parse genv (jsonText_of rtext) = Inl x" by simp_all
  from p have d: "enrichedData_of genv rtext = JArray []" by (simp add: enrichedData_of_def)
  have nn: "JNull \<notin> set []" by simp
  have nm: "matching_entries (JArray []) (raw_id (rawPapers ! i)) = []"
    by (simp add: matching_entries_def)
  from nm d have nm': "matching_entries (enrichedData_of genv rtext) (raw_id (rawPapers ! i)) = []"
    by simp
  from enrich_no_match [OF i g nm']
  show "abstract_en (enrichPapersWithGemini genv rawPapers ! i) = summary (rawPapers ! i)"
    by simp
  from enrich_no_match_no_null [OF i g d nn nm]
  show "abstract_zh (enrichPapersWithGemini genv rawPapers ! i) = JString translating_placeholder"
    and "tags (enrichPapersWithGemini genv rawPapers ! i) = JArray [JString ''New Paper'']"
    by simp_all
next
  fix e assume "generateContent genv = Inl e"
  then show "enrichPapersWithGemini genv rawPapers = map fallback_paper rawPapers"
    by (rule enrich_rejected)
qed

theorem enrichment_fallbacks_witness:
  "generateContent example_genv = Inr (Some ''[...]'')
   \<and> enrichedData_of example_genv (Some ''[...]'') = example_reply
   \<and> matching_entries example_reply (raw_id example_raw1) = []
   \<and> abstract_en (enrichPapersWithGemini example_genv [example_raw1, example_raw2] ! 0)
       = ''First abstract.''
   \<and> abstract_zh (enrichPapersWithGemini example_genv [example_raw1, example_raw2] ! 0)
       = JString translating_placeholder
   \<and> tags (enrichPapersWithGemini example_genv [example_raw1, example_raw2] ! 0)
       = JArray [JString ''New Paper'']
   \<and> generateContent unparsable_genv = Inr (Some ''Sorry'')
   \<and> JSON_parse unparsable_genv (jsonText_of (Some ''Sorry'')) = Inl SyntaxError
   \<and> abstract_zh (enrichPapersWithGemini unparsable_genv [example_raw1, example_raw2] ! 1)
       = JString translating_placeholder
   \<and> tags (enrichPapersWithGemini unparsable_genv [example_raw1, example_raw2] ! 1)
       = JArray [JString ''New Paper'']
   \<and> generateContent failing_genv = Inl (Error ''503'')
   \<and> enrichPapersWithGemini failing_genv [example_raw1, example_raw2]
       = [fallback_paper example_raw1, fallback_paper example_raw2]"
proof -
  have ug: "generateContent unparsable_genv = Inr (Some ''Sorry'')"
    by (simp add: unparsable_genv_def)
  have up: "JSON_parse unparsable_genv (jsonText_of (Some ''Sorry'')) = Inl SyntaxError"
    by (simp add: unparsable_genv_def)
  from enrichment_fallbacks [of "[example_raw1, example_raw2]" unparsable_genv] ug up
  have u: "abstract_zh (enrichPapersWithGemini unparsable_genv [example_raw1, example_raw2] ! 1)
             = JString translating_placeholder
           \<and> tags (enrichPapersWithGemini unparsable_genv [example_raw1, example_raw2] ! 1)
             = JArray [JString ''New Paper'']"
    by simp
  have g: "generateContent example_genv = Inr (Some ''[...]'')"
    by (simp add: example_genv_def)
  have d: "enrichedData_of example_genv (Some ''[...]'') = example_reply"
    by (simp add: example_genv_def enrichedData_of_def)
  have d': "enrichedData_of example_genv (Some ''[...]'')
            = JArray [JNumber 7,
                JObject [(''id'', JString ''2301.00002''), (''abstract_zh'', JString ''zh''),
                         (''tldr'', JString ''Plans.''), (''tags'', JArray [JString ''Planning''])]]"
    using d by (simp add: example_reply_def)
  have m: "matching_entries example_reply (raw_id example_raw1) = []"
    by (simp add: matching_entries_def example_reply_def example_raw1_def)
  have f: "generateContent failing_genv = Inl (Error ''503'')"
    by (simp add: failing_genv_def)
  from enrichment_fallbacks [of "[example_raw1, example_raw2]" example_genv] g d' m
  have a: "abstract_zh (enrichPapersWithGemini example_genv [example_raw1, example_raw2] ! 0)
             = JString translating_placeholder
           \<and> tags (enrichPapersWithGemini example_genv [example_raw1, example_raw2] ! 0)
             = JArray [JString ''New Paper'']"
    by (simp add: example_reply_def)
  from enrichment_fallbacks [of "[example_raw1, example_raw2]" example_genv] g d m
  have b: "abstract_en (enrichPapersWithGemini example_genv [example_raw1, example_raw2] ! 0)
             = ''First abstract.''"
    by (simp add: example_raw1_def)
  from enrichment_fallbacks [of "[example_raw1, example_raw2]" failing_genv] f
  have c: "enrichPapersWithGemini failing_genv [example_raw1, example_raw2]
             = [fallback_paper example_raw1, fallback_paper example_raw2]"
    by simp
  from g d m a b c f ug up u show ?thesis by simp
qed

text \<open>
  Claim C10. For every raw record and every behaviour of the generative-text service, the
  output record at the raw record's position has the raw record's identifier, title, author
  list, publication date and English abstract, unchanged; so these five fields are the same
  under any two behaviours of the service, which can only decide the translated abstract,
  the one-line summary and the tags.
\<close>

theorem enrichment_frame:
  "(\<forall>i < length rawPapers.
       paper_id (enrichPapersWithGemini genv rawPapers ! i) = raw_id (rawPapers ! i)
     \<and> title (enrichPapersWithGemini genv rawPapers ! i) = raw_title (rawPapers ! i)
     \<and> authors (enrichPapersWithGemini genv rawPapers ! i) = raw_authors (rawPapers ! i)
     \<and> year (enrichPapersWithGemini genv rawPapers ! i) = published (rawPapers ! i)
     \<and> abstract_en (enrichPapersWithGemini genv rawPapers ! i) = summary (rawPapers ! i))
   \<and> map feed_fields (enrichPapersWithGemini genv rawPapers)
       = map feed_fields (enrichPapersWithGemini genv' rawPapers)"
proof (intro conjI allI impI)
  fix i assume i: "i < length rawPapers"
  have ff: "map feed_fields (enrichPapersWithGemini genv rawPapers) = map raw_fields rawPapers"
    by (rule enrich_feed_fields)
  then have "length (map feed_fields (enrichPapersWithGemini genv rawPapers))
             = length (map raw_fields rawPapers)" by simp
  then have len: "length (enrichPapersWithGemini genv rawPapers) = length rawPapers" by simp
  from ff have "map feed_fields (enrichPapersWithGemini genv rawPapers) ! i
                = map raw_fields rawPapers ! i" by simp
  with i len have eq: "feed_fields (enrichPapersWithGemini genv rawPapers ! i)
                       = raw_fields (rawPapers ! i)" by simp
  from eq show "paper_id (enrichPapersWithGemini genv rawPapers ! i) = raw_id (rawPapers ! i)"
    by (simp add: feed_fields_def raw_fields_def)
  from eq show "title (enrichPapersWithGemini genv rawPapers ! i) = raw_title (rawPapers ! i)"
    by (simp add: feed_fields_def raw_fields_def)
  from eq show "authors (enrichPapersWithGemini genv rawPapers ! i) = raw_authors (rawPapers ! i)"
    by (simp add: feed_fields_def raw_fields_def)
  from eq show "year (enrichPapersWithGemini genv rawPapers ! i) = published (rawPapers ! i)"
    by (simp add: feed_fields_def raw_fields_def)
  from eq show "abstract_en (enrichPapersWithGemini genv rawPapers ! i) = summary (rawPapers ! i)"
    by (simp add: feed_fields_def raw_fields_def)
next
  show "map feed_fields (enrichPapersWithGemini genv rawPapers)
        = map feed_fields (enrichPapersWithGemini genv' rawPapers)"
    by (simp add: enrich_feed_fields)
qed

theorem enrichment_frame_witness:
  "(1::nat) < length [example_raw1, example_raw2]
   \<and> paper_id (enrichPapersWithGemini example_genv [example_raw1, example_raw2] ! 1)
       = ''2301.00002''
   \<and> title (enrichPapersWithGemini example_genv [example_raw1, example_raw2] ! 1)
       = ''Autonomous Planning Systems''
   \<and> authors (enrichPapersWithGemini example_genv [example_raw1, example_raw2] ! 1)
       = [''B. Author'', ''C. Author'']
   \<and> year (enrichPapersWithGemini example_genv [example_raw1, example_raw2] ! 1) = ''2023-01-02''
   \<and> abstract_en (enrichPapersWithGemini example_genv [example_raw1, example_raw2] ! 1)
       = ''Second abstract.''"
  using enrichment_frame [of "[example_raw1, example_raw2]" example_genv failing_genv]
  by (simp add: example_raw2_def)

section \<open>Properties of the source fetcher\<close>

lemma proxy_attempt_usable:
  "usable (fetch env url) \<Longrightarrow> proxy_attempt env url = Inr (records_of env (fetch env url))"
  by (auto simp: usable_def proxy_attempt_def records_of_def split: sum.splits)

lemma proxy_attempt_unusable:
  "\<not> usable (fetch env url) \<Longrightarrow> \<exists>e. proxy_attempt env url = Inl e"
  by (auto simp: usable_def proxy_attempt_def split: sum.splits)

lemma try_proxies_first_usable:
  "try_proxies env targetUrl ps =
     (case find (\<lambda>createProxyUrl. usable (fetch env (createProxyUrl targetUrl))) ps of
        None \<Rightarrow> []
      | Some createProxyUrl \<Rightarrow> records_of env (fetch env (createProxyUrl targetUrl)))"
proof (induction ps)
  case Nil
  show ?case by simp
next
  case (Cons p ps)
  show ?case
  proof (cases "usable (fetch env (p targetUrl))")
    case True
    from proxy_attempt_usable [OF True] True show ?thesis by simp
  next
    case False
    from proxy_attempt_unusable [OF False] obtain e where "proxy_attempt env (p targetUrl) = Inl e"
      by blast
    with False Cons.IH show ?thesis by simp
  qed
qed

lemma unusable_iff:
  "\<not> usable r \<longleftrightarrow>
     (\<exists>e. r = Inl e)
     \<or> (\<exists>response. r = Inr response \<and>
          (\<not> ok response
           \<or> (\<exists>e. text_of response = Inl e)
           \<or> (\<exists>str. text_of response = Inr str
                  \<and> \<not> includes_str str ''<feed'' \<and> \<not> includes_str str ''<entry'')))"
  by (auto simp: usable_def split: sum.splits)

lemma proxies_nth: "proxies = [proxies ! 0, proxies ! 1]"
  by (simp add: proxies_def)

lemma fetchFromArxiv_two:
  "fetchFromArxiv env startIndex context =
     (if usable (fetch env ((proxies ! 0) (targetUrl_of env startIndex context)))
      then records_of env (fetch env ((proxies ! 0) (targetUrl_of env startIndex context)))
      else if usable (fetch env ((proxies ! 1) (targetUrl_of env startIndex context)))
      then records_of env (fetch env ((proxies ! 1) (targetUrl_of env startIndex context)))
      else [])"
proof -
  have "fetchFromArxiv env startIndex context
        = try_proxies env (targetUrl_of env startIndex context) [proxies ! 0, proxies ! 1]"
    unfolding fetchFromArxiv_def using proxies_nth by simp
  then show ?thesis by (simp add: try_proxies_first_usable)
qed

text \<open>
  Claim C8. For every cursor, context and behaviour of the network, the source fetcher
  returns a list of raw records: every throw of an attempt (a rejected \<^verbatim>\<open>fetch\<close>, a
  response that is not \<^verbatim>\<open>ok\<close>, a text that cannot be read or that has neither \<^verbatim>\<open><feed\<close>
  nor \<^verbatim>\<open><entry\<close>) is caught inside the loop. The proxies are tried in their fixed order,
  the records come from the first proxy whose reply is accepted (the first of the two if
  its reply is accepted, whatever the second would reply; else the second), and when no
  proxy's reply is accepted the result is the empty list.
\<close>

theorem fetchFromArxiv_never_throws:
  "fetchFromArxiv env startIndex context =
     (case find (\<lambda>createProxyUrl.
                   usable (fetch env (createProxyUrl (targetUrl_of env startIndex context)))) proxies of
        None \<Rightarrow> []
      | Some createProxyUrl \<Rightarrow>
          records_of env (fetch env (createProxyUrl (targetUrl_of env startIndex context))))
   \<and> (usable (fetch env ((proxies ! 0) (targetUrl_of env startIndex context)))
        \<longrightarrow> fetchFromArxiv env startIndex context
            = records_of env (fetch env ((proxies ! 0) (targetUrl_of env startIndex context))))
   \<and> (\<not> usable (fetch env ((proxies ! 0) (targetUrl_of env startIndex context)))
        \<and> usable (fetch env ((proxies ! 1) (targetUrl_of env startIndex context)))
        \<longrightarrow> fetchFromArxiv env startIndex context
            = records_of env (fetch env ((proxies ! 1) (targetUrl_of env startIndex context))))
   \<and> ((\<forall>createProxyUrl \<in> set proxies.
          \<not> usable (fetch env (createProxyUrl (targetUrl_of env startIndex context))))
        \<longrightarrow> fetchFromArxiv env startIndex context = [])
   \<and> (\<forall>r. \<not> usable r \<longleftrightarrow>
          (\<exists>e. r = Inl e)
          \<or> (\<exists>response. r = Inr response \<and>
               (\<not> ok response
                \<or> (\<exists>e. text_of response = Inl e)
                \<or> (\<exists>str. text_of response = Inr str
                       \<and> \<not> includes_str str ''<feed'' \<and> \<not> includes_str str ''<entry''))))"
proof (intro conjI allI impI)
  show first: "fetchFromArxiv env startIndex context =
     (case find (\<lambda>createProxyUrl.
                   usable (fetch env (createProxyUrl (targetUrl_of env startIndex context)))) proxies of
        None \<Rightarrow> []
      | Some createProxyUrl \<Rightarrow>
          records_of env (fetch env (createProxyUrl (targetUrl_of env startIndex context))))"
    unfolding fetchFromArxiv_def by (rule try_proxies_first_usable)
  assume "\<forall>createProxyUrl \<in> set proxies.
          \<not> usable (fetch env (createProxyUrl (targetUrl_of env startIndex context)))"
  then have "find (\<lambda>createProxyUrl.
                   usable (fetch env (createProxyUrl (targetUrl_of env startIndex context)))) proxies = None"
    by (simp add: find_None_iff)
  with first show "fetchFromArxiv env startIndex context = []" by simp
next
  assume "usable (fetch env ((proxies ! 0) (targetUrl_of env startIndex context)))"
  then show "fetchFromArxiv env startIndex context
            = records_of env (fetch env ((proxies ! 0) (targetUrl_of env startIndex context)))"
    by (simp add: fetchFromArxiv_two)
next
  assume "\<not> usable (fetch env ((proxies ! 0) (targetUrl_of env startIndex context)))
        \<and> usable (fetch env ((proxies ! 1) (targetUrl_of env startIndex context)))"
  then show "fetchFromArxiv env startIndex context
            = records_of env (fetch env ((proxies ! 1) (targetUrl_of env startIndex context)))"
    by (simp add: fetchFromArxiv_two)
next
  fix r
  show "\<not> usable r \<longleftrightarrow>
          (\<exists>e. r = Inl e)
          \<or> (\<exists>response. r = Inr response \<and>
               (\<not> ok response
                \<or> (\<exists>e. text_of response = Inl e)
                \<or> (\<exists>str. text_of response = Inr str
                       \<and> \<not> includes_str str ''<feed'' \<and> \<not> includes_str str ''<entry'')))"
    by (rule unusable_iff)
qed

lemma parse_example_entry:
  "parse_entry example_entry =
     \<lparr>raw_id = ''2301.00001'', raw_title = ''Large Language Model Agents'',
      raw_authors = [''A. Author''], published = ''2023-01-01'', summary = ''First abstract.''\<rparr>"
  by code_simp

theorem fetchFromArxiv_never_throws_witness:
  "\<not> usable (fetch dead_env ((proxies ! 0) (targetUrl_of dead_env 0 (context_of []))))
   \<and> \<not> usable (fetch dead_env ((proxies ! 1) (targetUrl_of dead_env 0 (context_of []))))
   \<and> fetchFromArxiv dead_env 0 (context_of []) = []
   \<and> \<not> usable (fetch example_env ((proxies ! 0) (targetUrl_of example_env 0 (context_of []))))
   \<and> usable (fetch example_env ((proxies ! 1) (targetUrl_of example_env 0 (context_of []))))
   \<and> fetchFromArxiv example_env 0 (context_of []) =
       [\<lparr>raw_id = ''2301.00001'', raw_title = ''Large Language Model Agents'',
         raw_authors = [''A. Author''], published = ''2023-01-01'', summary = ''First abstract.''\<rparr>]
   \<and> usable (fetch five_env ((proxies ! 0) (targetUrl_of five_env 0 (context_of []))))
   \<and> length (fetchFromArxiv five_env 0 (context_of [])) = 5"
proof -
  have h: "\<forall>createProxyUrl \<in> set proxies.
      \<not> usable (fetch dead_env (createProxyUrl (targetUrl_of dead_env 0 (context_of []))))"
    by (simp add: dead_env_def usable_def)
  with fetchFromArxiv_never_throws [of dead_env 0 "context_of []"]
  have a: "fetchFromArxiv dead_env 0 (context_of []) = []" by blast
  have h0: "\<not> usable (fetch dead_env ((proxies ! 0) (targetUrl_of dead_env 0 (context_of []))))"
    and h1: "\<not> usable (fetch dead_env ((proxies ! 1) (targetUrl_of dead_env 0 (context_of []))))"
    by (simp_all add: dead_env_def usable_def)
  have e0: "\<not> usable (fetch example_env ((proxies ! 0) (targetUrl_of example_env 0 (context_of []))))"
    by (simp add: proxies_def example_env_def usable_def starts_with_def)
  have e1: "usable (fetch example_env ((proxies ! 1) (targetUrl_of example_env 0 (context_of []))))"
    by (simp add: proxies_def example_env_def usable_def starts_with_def)
  from fetchFromArxiv_never_throws [of example_env 0 "context_of []"] e0 e1
  have "fetchFromArxiv example_env 0 (context_of [])
        = records_of example_env
            (fetch example_env ((proxies ! 1) (targetUrl_of example_env 0 (context_of []))))"
    by blast
  then have b: "fetchFromArxiv example_env 0 (context_of []) =
       [\<lparr>raw_id = ''2301.00001'', raw_title = ''Large Language Model Agents'',
         raw_authors = [''A. Author''], published = ''2023-01-01'', summary = ''First abstract.''\<rparr>]"
    by (simp add: proxies_def example_env_def records_of_def starts_with_def parse_example_entry)
  have f0: "usable (fetch five_env ((proxies ! 0) (targetUrl_of five_env 0 (context_of []))))"
    by (simp add: five_env_def usable_def starts_with_def)
  from fetchFromArxiv_never_throws [of five_env 0 "context_of []"] f0
  have "fetchFromArxiv five_env 0 (context_of [])
        = records_of five_env
            (fetch five_env ((proxies ! 0) (targetUrl_of five_env 0 (context_of []))))"
    by blast
  then have c: "length (fetchFromArxiv five_env 0 (context_of [])) = 5"
    by (simp add: five_env_def records_of_def)
  from h0 h1 a e0 e1 b f0 c show ?thesis by blast
qed

section \<open>Properties of the keyword extractor\<close>

lemma filter_removeAll_absent: "\<not> P x \<Longrightarrow> filter P (removeAll x ys) = filter P ys"
  by (induction ys) auto

lemma filter_removeAll_snoc:
  "filter (\<lambda>y. y \<notin> set (seen @ [x])) ys = filter (\<lambda>y. y \<notin> set seen) (removeAll x ys)"
  by (induction ys) auto

lemma set_insert_order_dedup:
  "set_insert_order seen xs = seen @ filter (\<lambda>x. x \<notin> set seen) (dedup_first xs)"
proof (induction xs arbitrary: seen)
  case Nil
  show ?case by simp
next
  case (Cons x xs)
  show ?case
  proof (cases "x \<in> set seen")
    case True
    then have "filter (\<lambda>y. y \<notin> set seen) (removeAll x (dedup_first xs))
               = filter (\<lambda>y. y \<notin> set seen) (dedup_first xs)"
      by (intro filter_removeAll_absent) simp
    with True Cons.IH [of seen] show ?thesis by simp
  next
    case False
    have "filter (\<lambda>y. y \<notin> set (seen @ [x])) (dedup_first xs)
          = filter (\<lambda>y. y \<notin> set seen) (removeAll x (dedup_first xs))"
      by (rule filter_removeAll_snoc)
    with False Cons.IH [of "seen @ [x]"] show ?thesis by simp
  qed
qed

lemma spread_Set_dedup: "spread_Set xs = dedup_first xs"
  by (simp add: spread_Set_def set_insert_order_dedup)

lemma set_dedup_first: "set (dedup_first xs) = set xs"
  by (induction xs) auto

lemma distinct_dedup_first: "distinct (dedup_first xs)"
  by (induction xs) (auto simp: distinct_removeAll)

lemma uniqueKeywords_spec: "uniqueKeywords titles = keywords_spec titles"
proof -
  have "slice_last 3 titles = rev (take 3 (rev titles))"
    by (simp add: slice_last_def take_rev)
  moreover have "(\<lambda>w. length w > 4 \<and> w \<notin> set stopWords) = qualifies"
    by (auto simp: qualifies_def)
  ultimately show ?thesis
    by (simp add: uniqueKeywords_def keywords_spec_def recent_tokens_def spread_Set_dedup)
qed

lemma split_nonword_word_chars:
  "\<forall>c \<in> set cur. P c \<Longrightarrow> \<forall>c \<in> set s. is_word_char c \<longrightarrow> P c \<Longrightarrow>
   \<forall>w \<in> set (split_nonword cur s). \<forall>c \<in> set w. P c"
proof (induction cur s rule: split_nonword.induct)
  case (1 cur)
  then show ?case by simp
next
  case (2 cur c cs)
  show ?case
  proof (cases "is_word_char c")
    case True
    have a: "\<forall>d \<in> set (c # cur). P d" using True 2(3,4) by simp
    have b: "\<forall>d \<in> set cs. is_word_char d \<longrightarrow> P d" using 2(4) by simp
    from 2(1) [OF True a b] True show ?thesis by simp
  next
    case False
    have a: "\<forall>d \<in> set ([]::string). P d" by simp
    have b: "\<forall>d \<in> set (dropWhile (\<lambda>d. \<not> is_word_char d) cs). is_word_char d \<longrightarrow> P d"
      using 2(4) by (auto dest: set_dropWhileD)
    from 2(2) [OF False a b] False 2(3) show ?thesis by simp
  qed
qed

lemma lower_char_not_upper: "lower_char c \<notin> set upper_chars"
  unfolding lower_char_def upper_chars_def lower_chars_def
  by (simp split: option.split)

lemma toLowerCase_not_upper: "c \<in> set (toLowerCase s) \<Longrightarrow> c \<notin> set upper_chars"
proof (induction s arbitrary: c rule: toLowerCase.induct)
  case 1
  then show ?case by simp
next
  case (2 d ds)
  have k: "CHR ''k'' \<notin> set upper_chars" and i: "CHR ''i'' \<notin> set upper_chars"
    and cd: "\<forall>x \<in> set combining_dot. x \<notin> set upper_chars"
    by (simp_all add: upper_chars_def combining_dot_def)
  show ?case
  proof (cases "starts_with kelvin_sign (d # ds)")
    case True
    with "2.prems" have "c = CHR ''k'' \<or> c \<in> set (toLowerCase (drop 2 ds))" by simp
    with k "2.IH"(1) [OF True] show ?thesis by blast
  next
    case nk: False
    show ?thesis
    proof (cases "starts_with capital_i_dot (d # ds)")
      case True
      with nk "2.prems"
      have "c = CHR ''i'' \<or> c \<in> set combining_dot \<or> c \<in> set (toLowerCase (drop 1 ds))"
        by auto
      with i cd "2.IH"(2) [OF nk True] show ?thesis by blast
    next
      case False
      with nk "2.prems" have "c = lower_char d \<or> c \<in> set (toLowerCase ds)" by simp
      with lower_char_not_upper "2.IH"(3) [OF nk False] show ?thesis by blast
    qed
  qed
qed

lemma recent_tokens_chars:
  assumes "w \<in> set (recent_tokens titles)" and "c \<in> set w"
  shows "is_word_char c \<and> c \<notin> set upper_chars"
proof -
  let ?s = "toLowerCase (join '' '' (rev (take 3 (rev titles))))"
  have a: "\<forall>c \<in> set ([]::string). is_word_char c \<and> c \<notin> set upper_chars" by simp
  have b: "\<forall>c \<in> set ?s. is_word_char c \<longrightarrow> is_word_char c \<and> c \<notin> set upper_chars"
    by (simp add: toLowerCase_not_upper)
  from split_nonword_word_chars [where P = "\<lambda>c. is_word_char c \<and> c \<notin> set upper_chars", OF a b]
    assms show ?thesis
    unfolding recent_tokens_def by blast
qed

lemma keywords_spec_subset:
  "k \<in> set (keywords_spec titles) \<Longrightarrow> k \<in> set (recent_tokens titles) \<and> qualifies k"
proof -
  assume "k \<in> set (keywords_spec titles)"
  then have "k \<in> set (dedup_first (filter qualifies (recent_tokens titles)))"
    unfolding keywords_spec_def by (rule in_set_takeD)
  then show ?thesis by (simp add: set_dedup_first)
qed

lemma join_all_nonempty:
  "kws \<noteq> [] \<Longrightarrow> join '' OR '' (map (\<lambda>k. ''all:'' @ k) kws) \<noteq> []"
proof (cases kws)
  case Nil
  assume "kws \<noteq> []"
  with Nil show ?thesis by simp
next
  case (Cons k ks)
  then show ?thesis by (cases ks) simp_all
qed

lemma keywords_spec_Nil: "keywords_spec [] = []"
  by code_simp

lemma extractKeywords_eq:
  "extractKeywords titles =
     (if keywords_spec titles = [] then []
      else join '' OR '' (map (\<lambda>k. ''all:'' @ k) (keywords_spec titles)))"
proof (cases "titles = []")
  case True
  then show ?thesis by (simp add: extractKeywords_def keywords_spec_Nil)
next
  case False
  then have "extractKeywords titles =
     (if length (keywords_spec titles) = 0 then []
      else join '' OR '' (map (\<lambda>k. ''all:'' @ k) (keywords_spec titles)))"
    unfolding extractKeywords_def uniqueKeywords_spec by simp
  then show ?thesis by simp
qed

lemma example_keywords: "keywords_spec example_titles = [''large'', ''language'', ''model'']"
  by code_simp

lemma example_reversed:
  "keywords_recency_reversed example_titles = [''multi'', ''agent'', ''coordination'']"
  by code_simp

lemma example_extract:
  "extractKeywords example_titles = ''all:large OR all:language OR all:model''"
  by code_simp

text \<open>Titles with the Kelvin sign and with the capital I with dot above.\<close>

lemma extractKeywords_outside_ascii:
  "extractKeywords [kelvin_sign @ ''ernel Methods''] = ''all:kernel OR all:methods''
   \<and> extractKeywords [''mode'' @ capital_i_dot] = ''all:modei''"
  by code_simp

lemma dedup_first_Nil_iff: "dedup_first xs = [] \<longleftrightarrow> xs = []"
  by (cases xs) simp_all

lemma extractKeywords_empty_iff:
  "extractKeywords titles = [] \<longleftrightarrow> filter qualifies (recent_tokens titles) = []"
proof -
  have "extractKeywords titles = [] \<longleftrightarrow> keywords_spec titles = []"
    using join_all_nonempty [of "keywords_spec titles"]
    by (auto simp: extractKeywords_eq)
  also have "\<dots> \<longleftrightarrow> dedup_first (filter qualifies (recent_tokens titles)) = []"
    by (simp add: keywords_spec_def)
  also have "\<dots> \<longleftrightarrow> filter qualifies (recent_tokens titles) = []"
    by (rule dedup_first_Nil_iff)
  finally show ?thesis .
qed

text \<open>
  Claim C5, as stated: on the three example titles the kept keywords follow first-seen
  order in the recency-reversed-then-joined input. The extractor joins the titles without
  reversing them, so it keeps other keywords than that reading gives.
\<close>

theorem extractKeywords_recency_reversed_counterexample:
  "keywords_recency_reversed example_titles = [''multi'', ''agent'', ''coordination'']
   \<and> extractKeywords example_titles = ''all:large OR all:language OR all:model''
   \<and> extractKeywords example_titles
       \<noteq> join '' OR '' (map (\<lambda>k. ''all:'' @ k) (keywords_recency_reversed example_titles))"
  by code_simp

text \<open>
  Claim C5, amended. For every list of liked titles the extractor takes the last three
  titles in list order (no reversal), joins them, lowercases, splits at non-word
  characters, drops the stop words and the tokens of length at most 4, deduplicates
  keeping first-seen order and keeps the first three; it returns these keywords, each
  prefixed with \<^verbatim>\<open>all:\<close>, joined with \<^verbatim>\<open> OR \<close>. The result is the empty string exactly
  when no token qualifies, in particular when there is no title. The kept keywords are at
  most three, pairwise distinct, longer than 4, no stop words, and made of word characters
  without upper-case letters. On the three example titles the result is
  \<^verbatim>\<open>all:large OR all:language OR all:model\<close>.
\<close>

theorem extractKeywords_first_seen:
  "extractKeywords titles =
     (if keywords_spec titles = [] then []
      else join '' OR '' (map (\<lambda>k. ''all:'' @ k) (keywords_spec titles)))
   \<and> (extractKeywords titles = [] \<longleftrightarrow> filter qualifies (recent_tokens titles) = [])
   \<and> (titles = [] \<longrightarrow> extractKeywords titles = [])
   \<and> length (keywords_spec titles) \<le> 3
   \<and> distinct (keywords_spec titles)
   \<and> (\<forall>k \<in> set (keywords_spec titles).
         4 < length k \<and> k \<notin> set stopWords
         \<and> (\<forall>c \<in> set k. is_word_char c \<and> c \<notin> set upper_chars))
   \<and> extractKeywords example_titles = ''all:large OR all:language OR all:model''"
proof (intro conjI ballI impI)
  show "extractKeywords titles =
     (if keywords_spec titles = [] then []
      else join '' OR '' (map (\<lambda>k. ''all:'' @ k) (keywords_spec titles)))"
    by (rule extractKeywords_eq)
  show "extractKeywords titles = [] \<longleftrightarrow> filter qualifies (recent_tokens titles) = []"
    by (rule extractKeywords_empty_iff)
  show "length (keywords_spec titles) \<le> 3" by (simp add: keywords_spec_def)
  show "distinct (keywords_spec titles)"
    by (simp add: keywords_spec_def distinct_dedup_first)
  show "extractKeywords example_titles = ''all:large OR all:language OR all:model''"
    by (rule example_extract)
next
  assume "titles = []"
  then show "extractKeywords titles = []" by (simp add: extractKeywords_def)
next
  fix k assume k: "k \<in> set (keywords_spec titles)"
  from keywords_spec_subset [OF k] show "4 < length k" and "k \<notin> set stopWords"
    by (simp_all add: qualifies_def)
  fix c assume "c \<in> set k"
  with keywords_spec_subset [OF k] recent_tokens_chars [of k titles c]
  show "is_word_char c" and "c \<notin> set upper_chars" by simp_all
qed

theorem extractKeywords_first_seen_witness:
  "extractKeywords [] = []
   \<and> ''language'' \<in> set (keywords_spec example_titles)
   \<and> 4 < length ''language'' \<and> ''language'' \<notin> set stopWords
   \<and> CHR ''g'' \<in> set ''language'' \<and> is_word_char CHR ''g'' \<and> CHR ''g'' \<notin> set upper_chars
   \<and> extractKeywords example_titles
       = join '' OR '' (map (\<lambda>k. ''all:'' @ k) [''large'', ''language'', ''model''])"
proof -
  have a: "extractKeywords [] = []"
    using extractKeywords_first_seen [of "[]"] by blast
  have m: "''language'' \<in> set (keywords_spec example_titles)"
    by (simp add: example_keywords)
  have g: "CHR ''g'' \<in> set ''language''" by simp
  from extractKeywords_first_seen [of example_titles] m g
  have b: "4 < length ''language'' \<and> ''language'' \<notin> set stopWords
           \<and> is_word_char CHR ''g'' \<and> CHR ''g'' \<notin> set upper_chars"
    by blast
  from extractKeywords_first_seen [of example_titles]
  have c: "extractKeywords example_titles
       = join '' OR '' (map (\<lambda>k. ''all:'' @ k) [''large'', ''language'', ''model''])"
    by (simp add: example_keywords)
  from a m g b c show ?thesis by simp
qed

section \<open>Properties of the buffer manager\<close>

lemma call_fields [simp]:
  "papers (loadMorePapers_call cl b s) = papers s"
  "likedPapers (loadMorePapers_call cl b s) = likedPapers s"
  "loading (loadMorePapers_call cl b s) = loading s"
  "nextStartIndexRef (loadMorePapers_call cl b s) = nextStartIndexRef s"
  by (simp_all add: loadMorePapers_call_def)

lemma call_guarded: "fetchingRef s \<Longrightarrow> loadMorePapers_call cl b s = s"
  by (simp add: loadMorePapers_call_def)

lemma call_idle:
  "\<not> fetchingRef s \<Longrightarrow>
   fetchingRef (loadMorePapers_call cl b s) \<and>
   suspended (loadMorePapers_call cl b s)
     = suspended s @ [\<lparr>call_currentLiked = cl, call_startIndex = nextStartIndexRef s\<rparr>]"
  by (simp add: loadMorePapers_call_def)

lemma effect_fields [simp]:
  "papers (prefetchEffect s) = papers s"
  "likedPapers (prefetchEffect s) = likedPapers s"
  "loading (prefetchEffect s) = loading s"
  "nextStartIndexRef (prefetchEffect s) = nextStartIndexRef s"
  by (simp_all add: prefetchEffect_def)

lemma effect_guarded: "fetchingRef s \<Longrightarrow> prefetchEffect s = s"
  by (simp add: prefetchEffect_def)

lemma resume_clears: "\<not> fetchingRef (loadMorePapers_resume result cl s)"
  by (simp add: loadMorePapers_resume_def Let_def)

lemma resume_fields [simp]:
  "suspended (loadMorePapers_resume result cl s) = suspended s"
  "papers (loadMorePapers_resume result cl s) = papers s"
  "likedPapers (loadMorePapers_resume result cl s) = likedPapers s"
  "loading (loadMorePapers_resume result cl s) = loading s"
  by (simp_all add: loadMorePapers_resume_def Let_def split: sum.splits)

lemma apply_update_fields [simp]:
  "fetchingRef (apply_update u s) = fetchingRef s"
  "suspended (apply_update u s) = suspended s"
  "nextStartIndexRef (apply_update u s) = nextStartIndexRef s"
  "queue (apply_update u s) = queue s"
  by (cases u; simp)+

lemma fold_apply_fields:
  "fetchingRef (fold apply_update us s) = fetchingRef s
   \<and> suspended (fold apply_update us s) = suspended s
   \<and> nextStartIndexRef (fold apply_update us s) = nextStartIndexRef s
   \<and> queue (fold apply_update us s) = queue s"
  by (induction us arbitrary: s) simp_all

lemma flush_fields [simp]:
  "fetchingRef (flush_queue s) = fetchingRef s"
  "suspended (flush_queue s) = suspended s"
  "nextStartIndexRef (flush_queue s) = nextStartIndexRef s"
  "queue (flush_queue s) = []"
  using fold_apply_fields [of "queue s" "s\<lparr>queue := []\<rparr>"]
  by (simp_all add: flush_queue_def)

lemma render_cursor [simp]: "nextStartIndexRef (render s) = nextStartIndexRef s"
  by (simp add: render_def Let_def)

lemma render_guarded:
  "fetchingRef s \<Longrightarrow> render s = flush_queue s"
  by (simp add: render_def Let_def effect_guarded)

lemma guard_inv_call: "guard_inv s \<Longrightarrow> guard_inv (loadMorePapers_call cl b s)"
  by (auto simp: guard_inv_def loadMorePapers_call_def)

lemma guard_inv_effect: "guard_inv s \<Longrightarrow> guard_inv (prefetchEffect s)"
  by (simp add: prefetchEffect_def guard_inv_call)

lemma guard_inv_render: "guard_inv s \<Longrightarrow> guard_inv (render s)"
proof -
  assume "guard_inv s"
  then have "guard_inv (flush_queue s)" by (simp add: guard_inv_def)
  then show ?thesis by (simp add: render_def Let_def guard_inv_effect)
qed

lemma swipe_fields:
  "step (Swipe d) s = s' \<Longrightarrow>
   suspended s' = suspended s \<and> fetchingRef s' = fetchingRef s
   \<and> nextStartIndexRef s' = nextStartIndexRef s \<and> loading s' = loading s
   \<and> papers s' = papers s \<and> likedPapers s' = likedPapers s"
  by (auto simp: manualSwipe_def handleSwipe_def split: list.splits if_splits)

lemma step_settle_only:
  assumes "suspended s = [c]"
  shows "step (Settle 0 result) s
         = loadMorePapers_resume result (call_currentLiked c) (s\<lparr>suspended := []\<rparr>)"
  using assms by simp

lemma guard_inv_step: "guard_inv s \<Longrightarrow> guard_inv (step ev s)"
proof (cases ev)
  case (Swipe d)
  assume "guard_inv s"
  with swipe_fields [of d s "step (Swipe d) s"] Swipe show ?thesis
    by (simp add: guard_inv_def)
next
  case Reload
  assume "guard_inv s"
  with Reload show ?thesis by (simp add: guard_inv_call)
next
  case (Settle i result)
  assume g: "guard_inv s"
  show ?thesis
  proof (cases "i < length (suspended s)")
    case True
    with g have i0: "i = 0" and len: "length (suspended s) = 1"
      by (simp_all add: guard_inv_def)
    from len obtain c where "suspended s = [c]"
      by (cases "suspended s") simp_all
    from step_settle_only [OF this, of result] Settle i0 show ?thesis
      by (simp add: guard_inv_def resume_clears)
  next
    case False
    with g Settle show ?thesis by simp
  qed
next
  case Render
  assume "guard_inv s"
  with Render show ?thesis by (simp add: guard_inv_render)
qed

lemma guard_inv_run: "guard_inv s \<Longrightarrow> guard_inv (run evs s)"
  by (induction evs arbitrary: s) (simp_all add: guard_inv_step)

lemma guard_inv_startup: "guard_inv startup"
  by (simp add: startup_def initial_session_def prefetchEffect_def loadMorePapers_call_def
      guard_inv_def PREFETCH_THRESHOLD_def)

lemma step_reload_guarded: "fetchingRef s \<Longrightarrow> step Reload s = s"
  by (simp add: call_guarded)

lemma step_reload_twice: "step Reload (step Reload s) = step Reload s"
proof (cases "fetchingRef s \<or> \<not> (length (papers s) = 0 \<and> \<not> loading s)")
  case True
  then have "step Reload s = s" by (auto simp: call_guarded)
  then show ?thesis by simp
next
  case False
  then have "fetchingRef (step Reload s)"
    by (simp add: call_idle)
  then show ?thesis by (rule step_reload_guarded)
qed

lemma run_reloads_fixed:
  assumes "step Reload t = t"
  shows "run (replicate n Reload) t = t"
  by (induction n) (simp_all only: replicate.simps run.simps assms)

lemma run_reloads: "run (replicate (Suc n) Reload) s = step Reload s"
proof -
  have "run (replicate (Suc n) Reload) s = run (replicate n Reload) (step Reload s)"
    by (simp only: replicate.simps run.simps)
  also have "\<dots> = step Reload s"
    by (rule run_reloads_fixed [OF step_reload_twice])
  finally show ?thesis .
qed

text \<open>
  Claim C4. While the flag \<^verbatim>\<open>fetchingRef\<close> is set, a request to load more papers, whether
  by the watermark effect or by the reload button (any number of times), changes nothing.
  A request made while the flag is clear sets the flag and suspends one call, in the same
  synchronous step. Resuming a suspended call clears the flag whether the awaited promise
  resolved or rejected. Hence in every state reached from startup, by events and renders
  in any order, at most one call is suspended, and the flag is set exactly when there is
  one.
\<close>

theorem single_fetch_in_flight:
  "(fetchingRef s \<longrightarrow>
       loadMorePapers_call currentLiked isInitialLoad s = s
     \<and> prefetchEffect s = s
     \<and> step Reload s = s)
   \<and> (\<not> fetchingRef s \<longrightarrow>
       fetchingRef (loadMorePapers_call currentLiked isInitialLoad s)
     \<and> suspended (loadMorePapers_call currentLiked isInitialLoad s)
        = suspended s @ [\<lparr>call_currentLiked = currentLiked,
                           call_startIndex = nextStartIndexRef s\<rparr>])
   \<and> \<not> fetchingRef (loadMorePapers_resume result currentLiked s)
   \<and> run (replicate (Suc n) Reload) s = step Reload s
   \<and> (guard_inv s \<longrightarrow> guard_inv (step ev s))
   \<and> guard_inv (run evs startup)"
proof (intro conjI impI)
  assume f: "fetchingRef s"
  then show "loadMorePapers_call currentLiked isInitialLoad s = s" by (rule call_guarded)
  from f show "prefetchEffect s = s" by (rule effect_guarded)
  from f show "step Reload s = s" by (rule step_reload_guarded)
next
  assume nf: "\<not> fetchingRef s"
  from call_idle [OF nf] show "fetchingRef (loadMorePapers_call currentLiked isInitialLoad s)"
    by simp
  from call_idle [OF nf] show "suspended (loadMorePapers_call currentLiked isInitialLoad s)
        = suspended s @ [\<lparr>call_currentLiked = currentLiked,
                           call_startIndex = nextStartIndexRef s\<rparr>]"
    by simp
next
  show "\<not> fetchingRef (loadMorePapers_resume result currentLiked s)" by (rule resume_clears)
  show "run (replicate (Suc n) Reload) s = step Reload s" by (rule run_reloads)
  show "guard_inv (run evs startup)" by (rule guard_inv_run [OF guard_inv_startup])
next
  assume "guard_inv s"
  then show "guard_inv (step ev s)" by (rule guard_inv_step)
qed

theorem single_fetch_in_flight_witness:
  "fetchingRef startup
   \<and> loadMorePapers_call [] True startup = startup
   \<and> step Reload startup = startup
   \<and> \<not> fetchingRef idle_example
   \<and> fetchingRef (loadMorePapers_call (likedPapers idle_example) False idle_example)
   \<and> length (suspended (loadMorePapers_call (likedPapers idle_example) False idle_example)) = 1
   \<and> guard_inv idle_example
   \<and> guard_inv (step (Swipe LEFT) idle_example)
   \<and> guard_inv (run liked_in_flight_run startup)"
proof -
  have a: "fetchingRef startup" by code_simp
  have b: "\<not> fetchingRef idle_example" by code_simp
  have c: "guard_inv idle_example" by code_simp
  have e: "suspended idle_example = []" by code_simp
  from single_fetch_in_flight [of startup "[]" True "Inl TypeError" 0 "Swipe LEFT" liked_in_flight_run] a
  have f: "loadMorePapers_call [] True startup = startup \<and> step Reload startup = startup
           \<and> guard_inv (run liked_in_flight_run startup)"
    by blast
  from single_fetch_in_flight [of idle_example "likedPapers idle_example" False "Inl TypeError" 0
      "Swipe LEFT" "[]"] b c e
  have g: "fetchingRef (loadMorePapers_call (likedPapers idle_example) False idle_example)
           \<and> length (suspended (loadMorePapers_call (likedPapers idle_example) False idle_example)) = 1
           \<and> guard_inv (step (Swipe LEFT) idle_example)"
    by simp
  from a b c f g show ?thesis by blast
qed

lemma enrich_length: "length (enrichPapersWithGemini genv raws) = length raws"
proof -
  have "length (map feed_fields (enrichPapersWithGemini genv raws)) = length (map raw_fields raws)"
    by (simp add: enrich_feed_fields)
  then show ?thesis by simp
qed

lemma step_user_in_flight:
  assumes "fetchingRef s" and "user_event ev"
  shows "suspended (step ev s) = suspended s \<and> fetchingRef (step ev s)
         \<and> nextStartIndexRef (step ev s) = nextStartIndexRef s"
proof (cases ev)
  case (Swipe d)
  from swipe_fields [of d s "step (Swipe d) s"] assms(1) Swipe show ?thesis by simp
next
  case Reload
  with assms(1) step_reload_guarded [OF assms(1)] show ?thesis by simp
next
  case (Settle i result)
  with assms(2) show ?thesis by (simp add: user_event_def)
next
  case Render
  with assms(1) render_guarded [OF assms(1)] show ?thesis by simp
qed

lemma run_user_in_flight:
  "fetchingRef s \<Longrightarrow> \<forall>ev \<in> set evs. user_event ev \<Longrightarrow>
   suspended (run evs s) = suspended s \<and> fetchingRef (run evs s)
   \<and> nextStartIndexRef (run evs s) = nextStartIndexRef s"
proof (induction evs arbitrary: s)
  case Nil
  then show ?case by simp
next
  case (Cons ev evs)
  from Cons.prems have f: "fetchingRef s" and u: "user_event ev"
    and us: "\<forall>ev \<in> set evs. user_event ev" by simp_all
  from step_user_in_flight [OF f u]
  have st: "suspended (step ev s) = suspended s" "fetchingRef (step ev s)"
    "nextStartIndexRef (step ev s) = nextStartIndexRef s" by simp_all
  from Cons.IH [OF st(2) us] st show ?case by (simp only: run.simps)
qed

lemma resume_cursor:
  "nextStartIndexRef (loadMorePapers_resume (Inr newPapers) cl s)
   = nextStartIndexRef s + length newPapers"
  by (simp add: loadMorePapers_resume_def Let_def)

lemma cycle_cursor:
  assumes inv: "guard_inv s" and idle: "\<not> fetchingRef s"
    and us: "\<forall>ev \<in> set evs. user_event ev"
  shows "nextStartIndexRef
           (step (settle_fetch env genv 0 (run evs (loadMorePapers_call cl b s)))
              (run evs (loadMorePapers_call cl b s)))
         = nextStartIndexRef s
           + length (fetchFromArxiv env (nextStartIndexRef s) (context_of cl))"
proof -
  let ?s1 = "loadMorePapers_call cl b s"
  let ?s2 = "run evs ?s1"
  let ?c = "\<lparr>call_currentLiked = cl, call_startIndex = nextStartIndexRef s\<rparr>"
  from inv idle have "suspended s = []" by (simp add: guard_inv_def)
  with call_idle [OF idle, of cl b] have s1: "fetchingRef ?s1" "suspended ?s1 = [?c]"
    by simp_all
  from run_user_in_flight [OF s1(1) us] s1(2)
  have s2: "suspended ?s2 = [?c]" "nextStartIndexRef ?s2 = nextStartIndexRef s"
    by simp_all
  let ?new = "fetchRecommendations env genv (context_of cl) (nextStartIndexRef s)"
  from s2(1) have ev: "settle_fetch env genv 0 ?s2 = Settle 0 (Inr ?new)"
    by (simp add: settle_fetch_def)
  have len: "length ?new = length (fetchFromArxiv env (nextStartIndexRef s) (context_of cl))"
    by (simp add: fetchRecommendations_def enrich_length)
  have "nextStartIndexRef (step (Settle 0 (Inr ?new)) ?s2)
        = nextStartIndexRef
            (loadMorePapers_resume (Inr ?new) (call_currentLiked ?c) (?s2\<lparr>suspended := []\<rparr>))"
    using step_settle_only [OF s2(1), of "Inr ?new"] by simp
  also have "\<dots> = nextStartIndexRef ?s2 + length ?new"
    by (simp add: resume_cursor)
  finally show ?thesis using ev s2(2) len by simp
qed

text \<open>
  Claim C2. A fetch cycle: from an idle state a call of \<^verbatim>\<open>loadMorePapers\<close> is made, the
  user may swipe or click and React may render while it is in flight, and the call settles
  with what \<^verbatim>\<open>fetchRecommendations\<close> computes. The cursor after the cycle is the cursor
  before it plus the number of raw records the source fetcher returned, whatever the
  filter then keeps; a cursor of 0 and a raw batch of 5 give 5.
\<close>

theorem cursor_advance:
  "guard_inv s \<and> \<not> fetchingRef s \<and> (\<forall>ev \<in> set evs. user_event ev)
   \<and> s2 = run evs (loadMorePapers_call currentLiked isInitialLoad s)
   \<and> rawPapers = fetchFromArxiv env (nextStartIndexRef s) (context_of currentLiked)
   \<longrightarrow> nextStartIndexRef (step (settle_fetch env genv 0 s2) s2)
         = nextStartIndexRef s + length rawPapers
       \<and> (nextStartIndexRef s = 0 \<and> length rawPapers = 5
           \<longrightarrow> nextStartIndexRef (step (settle_fetch env genv 0 s2) s2) = 5)"
proof (intro impI)
  assume "guard_inv s \<and> \<not> fetchingRef s \<and> (\<forall>ev \<in> set evs. user_event ev)
   \<and> s2 = run evs (loadMorePapers_call currentLiked isInitialLoad s)
   \<and> rawPapers = fetchFromArxiv env (nextStartIndexRef s) (context_of currentLiked)"
  then have h: "guard_inv s" "\<not> fetchingRef s" "\<forall>ev \<in> set evs. user_event ev"
    and s2: "s2 = run evs (loadMorePapers_call currentLiked isInitialLoad s)"
    and raw: "rawPapers = fetchFromArxiv env (nextStartIndexRef s) (context_of currentLiked)"
    by simp_all
  from cycle_cursor [OF h, of env genv currentLiked isInitialLoad] s2 raw
  have "nextStartIndexRef (step (settle_fetch env genv 0 s2) s2)
         = nextStartIndexRef s + length rawPapers" by simp
  then show "nextStartIndexRef (step (settle_fetch env genv 0 s2) s2)
         = nextStartIndexRef s + length rawPapers
       \<and> (nextStartIndexRef s = 0 \<and> length rawPapers = 5
           \<longrightarrow> nextStartIndexRef (step (settle_fetch env genv 0 s2) s2) = 5)"
    by simp
qed

theorem cursor_advance_witness:
  "guard_inv fresh_example \<and> \<not> fetchingRef fresh_example
   \<and> user_event (Swipe LEFT)
   \<and> nextStartIndexRef fresh_example = 0
   \<and> length (fetchFromArxiv five_env 0 (context_of (likedPapers fresh_example))) = 5
   \<and> nextStartIndexRef
        (step (settle_fetch five_env failing_genv 0
                 (run [Swipe LEFT] (loadMorePapers_call (likedPapers fresh_example) False fresh_example)))
           (run [Swipe LEFT] (loadMorePapers_call (likedPapers fresh_example) False fresh_example)))
      = 5"
proof -
  have a: "guard_inv fresh_example" by code_simp
  have b: "\<not> fetchingRef fresh_example" by code_simp
  have u: "user_event (Swipe LEFT)" by (simp add: user_event_def)
  then have c: "\<forall>ev \<in> set [Swipe LEFT]. user_event ev" by simp
  have z: "nextStartIndexRef fresh_example = 0" by code_simp
  have d: "length (fetchFromArxiv five_env 0 (context_of (likedPapers fresh_example))) = 5"
    by code_simp
  from cursor_advance [of fresh_example "[Swipe LEFT]"
      "run [Swipe LEFT] (loadMorePapers_call (likedPapers fresh_example) False fresh_example)"
      "likedPapers fresh_example" False
      "fetchFromArxiv five_env 0 (context_of (likedPapers fresh_example))" five_env failing_genv]
    a b c z d
  have "nextStartIndexRef
        (step (settle_fetch five_env failing_genv 0
                 (run [Swipe LEFT] (loadMorePapers_call (likedPapers fresh_example) False fresh_example)))
           (run [Swipe LEFT] (loadMorePapers_call (likedPapers fresh_example) False fresh_example)))
      = 5"
    by simp
  with a b u z d show ?thesis by blast
qed

text \<open>
  When the liked collection has no identifier beyond those of the list a call captured,
  and the batch has no identifier twice, the call's update keeps the identifiers unique.
\<close>

lemma append_unique_ids_unique:
  assumes u: "ids_unique s" and d: "distinct (map paper_id newPapers)"
    and l: "set (map paper_id (likedPapers s)) \<subseteq> set (map paper_id currentLiked)"
  shows "ids_unique (apply_update (AppendUniqueNew currentLiked newPapers) s)"
proof -
  let ?new = "uniqueNew (papers s) currentLiked newPapers"
  have dn: "distinct (map paper_id ?new)"
    using d by (simp add: uniqueNew_def Let_def distinct_map_filter)
  have np: "set (map paper_id ?new) \<inter> set (map paper_id (papers s)) = {}"
    by (auto simp: uniqueNew_def Let_def)
  have nl: "set (map paper_id ?new) \<inter> set (map paper_id (likedPapers s)) = {}"
    using l by (auto simp: uniqueNew_def Let_def)
  from u dn np nl have "distinct (map paper_id ((papers s @ ?new) @ likedPapers s))"
    by (auto simp: ids_unique_def)
  then show ?thesis by (simp add: ids_unique_def)
qed

lemma fold_append_liked:
  "papers (fold apply_update (map AppendLiked ps) s) = papers s
   \<and> likedPapers (fold apply_update (map AppendLiked ps) s) = likedPapers s @ ps"
  by (induction ps arbitrary: s) simp_all

text \<open>
  Whatever is queued when a swipe is handled, the render after it shows the buffer of the
  last render without its front record, and a liked collection that ends with that record
  if the swipe went right.
\<close>

lemma flush_after_swipe:
  assumes "papers s = p # rest"
  shows "papers (flush_queue (step (Swipe d) s)) = rest"
    and "likedPapers (flush_queue (step (Swipe d) s))
         = likedPapers (flush_queue s) @ (if d = RIGHT then [p] else [])"
proof -
  let ?likes = "if d = RIGHT then [p] else []"
  let ?t = "fold apply_update (queue s) (s\<lparr>queue := []\<rparr>)"
  from assms have st: "step (Swipe d) s
      = s\<lparr>queue := queue s @ SetPapers rest # map AppendLiked ?likes\<rparr>"
    by (simp add: manualSwipe_def handleSwipe_def)
  have "flush_queue (step (Swipe d) s)
        = fold apply_update (map AppendLiked ?likes) (apply_update (SetPapers rest) ?t)"
    unfolding st by (simp add: flush_queue_def)
  with fold_append_liked [of ?likes "apply_update (SetPapers rest) ?t"]
  show "papers (flush_queue (step (Swipe d) s)) = rest"
    and "likedPapers (flush_queue (step (Swipe d) s))
         = likedPapers (flush_queue s) @ (if d = RIGHT then [p] else [])"
    by (simp_all add: flush_queue_def)
qed

lemma render_fields [simp]:
  "papers (render s) = papers (flush_queue s)"
  "likedPapers (render s) = likedPapers (flush_queue s)"
  by (simp_all add: render_def Let_def)

lemma swipe_then_render:
  assumes "papers s = p # rest"
  shows "papers (run [Swipe d, Render] s) = rest"
    and "likedPapers (run [Swipe d, Render] s)
         = likedPapers (flush_queue s) @ (if d = RIGHT then [p] else [])"
  using flush_after_swipe [OF assms, of d] by simp_all

lemma flush_empty: "queue s = [] \<Longrightarrow> flush_queue s = s"
  by (simp add: flush_queue_def)

text \<open>
  When the filter of the source, against the buffer and the captured liked list, keeps
  nothing of a batch, the render after the continuation shows the same buffer and starts
  no fetch.
\<close>

lemma settle_no_new:
  assumes q: "queue s = []" and sus: "suspended s = [c]"
    and none: "uniqueNew (papers s) (call_currentLiked c) newPapers = []"
  shows "papers (run [Settle 0 (Inr newPapers), Render] s) = papers s"
    and "likedPapers (run [Settle 0 (Inr newPapers), Render] s) = likedPapers s"
    and "suspended (run [Settle 0 (Inr newPapers), Render] s) = []"
    and "\<not> fetchingRef (run [Settle 0 (Inr newPapers), Render] s)"
proof -
  let ?h = "step (Settle 0 (Inr newPapers)) s"
  from step_settle_only [OF sus]
  have h: "?h = loadMorePapers_resume (Inr newPapers) (call_currentLiked c) (s\<lparr>suspended := []\<rparr>)" .
  have qh: "queue ?h = (if length newPapers > 0
                        then [AppendUniqueNew (call_currentLiked c) newPapers] else [])
                       @ [SetLoading False]"
    unfolding h using q by (simp add: loadMorePapers_resume_def Let_def)
  have ph: "papers ?h = papers s" and lh: "likedPapers ?h = likedPapers s"
    unfolding h by simp_all
  have pf: "papers (flush_queue ?h) = papers s"
    using qh ph none by (simp add: flush_queue_def)
  have lf: "likedPapers (flush_queue ?h) = likedPapers s"
    using qh lh by (simp add: flush_queue_def)
  have sf: "suspended (flush_queue ?h) = []" unfolding h by simp
  have ff: "\<not> fetchingRef (flush_queue ?h)" unfolding h by (simp add: resume_clears)
  from pf lf ph lh have "effect_deps (flush_queue ?h) = effect_deps ?h"
    by (simp add: effect_deps_def)
  then have r: "render ?h = flush_queue ?h" by (simp add: render_def Let_def)
  have run: "run [Settle 0 (Inr newPapers), Render] s = render ?h"
    by (simp only: run.simps step.simps)
  from run r pf show "papers (run [Settle 0 (Inr newPapers), Render] s) = papers s" by simp
  from run r lf show "likedPapers (run [Settle 0 (Inr newPapers), Render] s) = likedPapers s"
    by simp
  from run r sf show "suspended (run [Settle 0 (Inr newPapers), Render] s) = []" by simp
  from run r ff show "\<not> fetchingRef (run [Settle 0 (Inr newPapers), Render] s)" by simp
qed

text \<open>
  Claim C1. The invariant, no identifier twice across buffer and liked collection, holds
  after the first four events of the run \<open>liked_in_flight_run\<close> and fails at its end: the
  filter compares the batch with the liked list captured when the fetch began, which lacks
  the record liked while the fetch was in flight.
\<close>

theorem liked_while_in_flight_duplicate:
  "ids_unique (run (take 4 liked_in_flight_run) startup)
   \<and> map paper_id (papers (run liked_in_flight_run startup))
       = [''2301.00002'', ''2301.00003'', ''2301.00001'', ''2301.00004'']
   \<and> map paper_id (likedPapers (run liked_in_flight_run startup)) = [''2301.00001'']
   \<and> \<not> ids_unique (run liked_in_flight_run startup)"
  by code_simp

text \<open>
  Claim C6. In the run \<open>nothing_new_run\<close> the prefetch returns only the record that the
  user liked while it was in flight: after deduplication against the buffer and the liked
  collection nothing of the batch is left. Yet the record is appended to the buffer, and
  the render that shows it starts a new fetch at once, at cursor 4: the filter compared
  the batch with the liked list captured when the fetch began.
\<close>

theorem nothing_new_batch_appended:
  "map paper_id (papers (run (take 4 nothing_new_run) startup)) = [''2301.00002'', ''2301.00003'']
   \<and> map paper_id (likedPapers (run (take 4 nothing_new_run) startup)) = [''2301.00001'']
   \<and> uniqueNew (papers (run (take 4 nothing_new_run) startup))
        (likedPapers (run (take 4 nothing_new_run) startup))
        (map example_paper [''2301.00001'']) = []
   \<and> map paper_id (papers (run nothing_new_run startup))
       = [''2301.00002'', ''2301.00003'', ''2301.00001'']
   \<and> fetchingRef (run nothing_new_run startup)
   \<and> map call_startIndex (suspended (run nothing_new_run startup)) = [4]"
  by code_simp

text \<open>
  Claim C9. The two runs have the same events: a prefetch resolves with two new records
  while the buffer shows three, and the user swipes left. When the swipe comes after the
  render of the new records, the buffer loses its front record and nothing else. When the
  swipe is handled before that render, the value it writes replaces the queued append: the
  buffer loses the front record and the two new records, which the cursor has already
  passed.
\<close>

theorem swipe_before_render_drops_batch:
  "map paper_id (papers (run (take 3 swipe_before_render_run) startup))
     = [''2301.00001'', ''2301.00002'', ''2301.00003'']
   \<and> map paper_id (papers (run swipe_after_render_run startup))
       = [''2301.00002'', ''2301.00003'', ''2301.00004'', ''2301.00005'']
   \<and> map paper_id (papers (run swipe_before_render_run startup))
       = [''2301.00002'', ''2301.00003'']
   \<and> nextStartIndexRef (run swipe_before_render_run startup) = 5"
  by code_simp

end
